theory Spec2Isabelle
  imports Main "HOL-Library.Word"
begin

unbundle bit_operations_syntax

section \<open>JavaScript values and array reads\<close>

text \<open>
  The TypeScript sources work on \<open>number[][]\<close> grids, \<open>Uint8Array\<close> byte arrays and
  strings. Grid cells are modelled as \<open>int\<close> (the program stores only the integers
  \<open>0..9\<close> in a grid), indices as \<open>nat\<close>, bytes as \<open>8 word\<close>, strings as \<open>string\<close>.

  Reading an array past its end yields \<open>undefined\<close> in JavaScript, and reading a
  property of \<open>undefined\<close> throws a \<open>TypeError\<close>. Both are written out: a cell read
  returns a \<open>jsval\<close>, and every function that reads \<open>grid[i][j]\<close> returns
  \<open>js_error + _\<close>.
\<close>

datatype js_error = TypeError | SyntaxError | Error string

datatype jsval = Undefined | Num int

type_synonym SudokuGrid = "int list list"

text \<open>\<open>grid[i][j]\<close>: throws when \<open>grid[i]\<close> is \<open>undefined\<close>.\<close>

definition cell :: "SudokuGrid \<Rightarrow> nat \<Rightarrow> nat \<Rightarrow> js_error + jsval" where
  "cell grid i j =
     (if i < length grid
      then Inr (if j < length (grid ! i) then Num (grid ! i ! j) else Undefined)
      else Inl TypeError)"

text \<open>\<open>v < n\<close> and \<open>v > n\<close> against a number: \<open>undefined\<close> converts to NaN, and
  every comparison with NaN is false.\<close>

fun js_lt :: "jsval \<Rightarrow> int \<Rightarrow> bool" where
  "js_lt Undefined n = False"
| "js_lt (Num x) n = (x < n)"

fun js_gt :: "jsval \<Rightarrow> int \<Rightarrow> bool" where
  "js_gt Undefined n = False"
| "js_gt (Num x) n = (x > n)"

text \<open>A grid of nine rows of nine cells, the shape of every grid the program builds.\<close>

definition grid9 :: "SudokuGrid \<Rightarrow> bool" where
  "grid9 grid = (length grid = 9 \<and> list_all (\<lambda>r. length r = 9) grid)"

section \<open>The challenge puzzle\<close>

text \<open>\<open>CHALLENGE_PUZZLES.default\<close> of \<open>src/constants/index.ts\<close> (the same grid as
  \<open>CHALLENGE_PUZZLE\<close> of the game class).\<close>

definition CHALLENGE_PUZZLES_default :: SudokuGrid where
  "CHALLENGE_PUZZLES_default =
    [[5, 3, 0, 0, 7, 0, 0, 0, 0],
     [6, 0, 0, 1, 9, 5, 0, 0, 0],
     [0, 9, 8, 0, 0, 0, 0, 6, 0],
     [8, 0, 0, 0, 6, 0, 0, 0, 3],
     [4, 0, 0, 8, 0, 3, 0, 0, 1],
     [7, 0, 0, 0, 2, 0, 0, 0, 6],
     [0, 6, 0, 0, 0, 0, 2, 8, 0],
     [0, 0, 0, 4, 1, 9, 0, 0, 5],
     [0, 0, 0, 0, 8, 0, 0, 7, 9]]"

section \<open>SudokuValidator.getConflicts\<close>

datatype conflict_type = Row | Column | Box

record conflict =
  type :: conflict_type
  position :: nat

text \<open>The row scan \<open>for (j = 0; j < 9; j++)\<close>: the result says whether the loop pushed
  a row conflict and broke. The conjunction short-circuits, so \<open>grid[row][j]\<close> is read
  only where \<open>j !== col\<close>.\<close>

fun getConflicts_row_loop ::
  "SudokuGrid \<Rightarrow> nat \<Rightarrow> nat \<Rightarrow> int \<Rightarrow> nat list \<Rightarrow> js_error + bool" where
  "getConflicts_row_loop grid row col v [] = Inr False"
| "getConflicts_row_loop grid row col v (j # js) =
     (if j \<noteq> col
      then (case cell grid row j of
              Inl e \<Rightarrow> Inl e
            | Inr x \<Rightarrow> if x = Num v then Inr True
                      else getConflicts_row_loop grid row col v js)
      else getConflicts_row_loop grid row col v js)"

text \<open>The column scan \<open>for (i = 0; i < 9; i++)\<close>.\<close>

fun getConflicts_column_loop ::
  "SudokuGrid \<Rightarrow> nat \<Rightarrow> nat \<Rightarrow> int \<Rightarrow> nat list \<Rightarrow> js_error + bool" where
  "getConflicts_column_loop grid row col v [] = Inr False"
| "getConflicts_column_loop grid row col v (i # is) =
     (if i \<noteq> row
      then (case cell grid i col of
              Inl e \<Rightarrow> Inl e
            | Inr x \<Rightarrow> if x = Num v then Inr True
                      else getConflicts_column_loop grid row col v is)
      else getConflicts_column_loop grid row col v is)"

text \<open>The box scan: the inner loop over \<open>j\<close> and the outer loop over \<open>i\<close>; \<open>True\<close>
  is the early \<open>return conflicts\<close> after pushing the box conflict.\<close>

fun getConflicts_box_inner ::
  "SudokuGrid \<Rightarrow> nat \<Rightarrow> nat \<Rightarrow> int \<Rightarrow> nat \<Rightarrow> nat list \<Rightarrow> js_error + bool" where
  "getConflicts_box_inner grid row col v i [] = Inr False"
| "getConflicts_box_inner grid row col v i (j # js) =
     (if i \<noteq> row \<and> j \<noteq> col
      then (case cell grid i j of
              Inl e \<Rightarrow> Inl e
            | Inr x \<Rightarrow> if x = Num v then Inr True
                      else getConflicts_box_inner grid row col v i js)
      else getConflicts_box_inner grid row col v i js)"

fun getConflicts_box_outer ::
  "SudokuGrid \<Rightarrow> nat \<Rightarrow> nat \<Rightarrow> int \<Rightarrow> nat list \<Rightarrow> nat list \<Rightarrow> js_error + bool" where
  "getConflicts_box_outer grid row col v js [] = Inr False"
| "getConflicts_box_outer grid row col v js (i # is) =
     (case getConflicts_box_inner grid row col v i js of
        Inl e \<Rightarrow> Inl e
      | Inr found \<Rightarrow> if found then Inr True
                    else getConflicts_box_outer grid row col v js is)"

definition getConflicts ::
  "SudokuGrid \<Rightarrow> nat \<Rightarrow> nat \<Rightarrow> int \<Rightarrow> js_error + conflict list" where
  "getConflicts grid row col v =
     (case getConflicts_row_loop grid row col v [0..<9] of
        Inl e \<Rightarrow> Inl e
      | Inr in_row \<Rightarrow>
     (case getConflicts_column_loop grid row col v [0..<9] of
        Inl e \<Rightarrow> Inl e
      | Inr in_col \<Rightarrow>
     (let conflicts =
            (if in_row then [\<lparr>type = Row, position = row\<rparr>] else [])
          @ (if in_col then [\<lparr>type = Column, position = col\<rparr>] else []);
          boxRow = (row div 3) * 3;
          boxCol = (col div 3) * 3
      in case getConflicts_box_outer grid row col v
                [boxCol..<boxCol + 3] [boxRow..<boxRow + 3] of
           Inl e \<Rightarrow> Inl e
         | Inr in_box \<Rightarrow>
             Inr (if in_box
                  then conflicts @ [\<lparr>type = Box, position = (row div 3) * 3 + col div 3\<rparr>]
                  else conflicts))))"

section \<open>Number to string\<close>

text \<open>\<open>Number.prototype.toString(radix)\<close> and \<open>BigInt.prototype.toString(radix)\<close> on a
  non-negative integer: the digits in the radix, most significant first, lowercase, no
  leading zero. The program uses radix 10 (the default) and 16.\<close>

definition digit_char :: "nat \<Rightarrow> char" where
  "digit_char d = ''0123456789abcdefghijklmnopqrstuvwxyz'' ! d"

function toStringRadix :: "nat \<Rightarrow> nat \<Rightarrow> string" where
  "toStringRadix r n =
     (if n < r \<or> r < 2 then [digit_char n]
      else toStringRadix r (n div r) @ [digit_char (n mod r)])"
  by pat_completeness auto
termination
  by (relation "measure (\<lambda>(r, n). n)") auto

declare toStringRadix.simps [simp del]

definition toString :: "nat \<Rightarrow> string" where
  "toString n = toStringRadix 10 n"

section \<open>SudokuValidator.isValid\<close>

record ValidationResult =
  valid :: bool
  error :: "string option"

text \<open>\<open>hasAllDigits\<close>: the loop over the array with the set \<open>seen\<close>, then
  \<open>seen.size === 9\<close>. An array built by \<open>getColumn\<close> or \<open>getBox\<close> may hold
  \<open>undefined\<close>, so the elements are \<open>jsval\<close>s.\<close>

fun hasAllDigits_loop :: "jsval list \<Rightarrow> jsval set \<Rightarrow> bool" where
  "hasAllDigits_loop [] seen = (card seen = 9)"
| "hasAllDigits_loop (val # rest) seen =
     (if js_lt val 1 \<or> js_gt val 9 \<or> val \<in> seen then False
      else hasAllDigits_loop rest (insert val seen))"

definition hasAllDigits :: "jsval list \<Rightarrow> bool" where
  "hasAllDigits arr = hasAllDigits_loop arr {}"

fun getColumn_loop ::
  "SudokuGrid \<Rightarrow> nat \<Rightarrow> nat list \<Rightarrow> jsval list \<Rightarrow> js_error + jsval list" where
  "getColumn_loop grid col [] column = Inr column"
| "getColumn_loop grid col (i # is) column =
     (case cell grid i col of
        Inl e \<Rightarrow> Inl e
      | Inr x \<Rightarrow> getColumn_loop grid col is (column @ [x]))"

definition getColumn :: "SudokuGrid \<Rightarrow> nat \<Rightarrow> js_error + jsval list" where
  "getColumn grid col = getColumn_loop grid col [0..<9] []"

fun getBox_inner ::
  "SudokuGrid \<Rightarrow> nat \<Rightarrow> nat \<Rightarrow> nat \<Rightarrow> nat list \<Rightarrow> jsval list \<Rightarrow> js_error + jsval list" where
  "getBox_inner grid boxRow boxCol i [] box = Inr box"
| "getBox_inner grid boxRow boxCol i (j # js) box =
     (case cell grid (boxRow + i) (boxCol + j) of
        Inl e \<Rightarrow> Inl e
      | Inr x \<Rightarrow> getBox_inner grid boxRow boxCol i js (box @ [x]))"

fun getBox_outer ::
  "SudokuGrid \<Rightarrow> nat \<Rightarrow> nat \<Rightarrow> nat list \<Rightarrow> jsval list \<Rightarrow> js_error + jsval list" where
  "getBox_outer grid boxRow boxCol [] box = Inr box"
| "getBox_outer grid boxRow boxCol (i # is) box =
     (case getBox_inner grid boxRow boxCol i [0..<3] box of
        Inl e \<Rightarrow> Inl e
      | Inr box' \<Rightarrow> getBox_outer grid boxRow boxCol is box')"

definition getBox :: "SudokuGrid \<Rightarrow> nat \<Rightarrow> js_error + jsval list" where
  "getBox grid boxNum =
     (let boxRow = (boxNum div 3) * 3;
          boxCol = (boxNum mod 3) * 3
      in getBox_outer grid boxRow boxCol [0..<3] [])"

text \<open>The four scans of \<open>isValid\<close>. Each returns \<open>Some\<close> of the object the scan
  returns early, or \<open>None\<close> when the loop runs to its end.\<close>

fun isValid_cells_inner ::
  "SudokuGrid \<Rightarrow> nat \<Rightarrow> nat list \<Rightarrow> js_error + ValidationResult option" where
  "isValid_cells_inner grid i [] = Inr None"
| "isValid_cells_inner grid i (j # js) =
     (case cell grid i j of
        Inl e \<Rightarrow> Inl e
      | Inr x \<Rightarrow>
          if x = Num 0
          then Inr (Some \<lparr>valid = False,
                 error = Some (''Cell at row '' @ toString (i + 1) @ '', column ''
                               @ toString (j + 1) @ '' is empty'')\<rparr>)
          else if js_lt x 1 \<or> js_gt x 9
          then Inr (Some \<lparr>valid = False,
                 error = Some (''Invalid value at row '' @ toString (i + 1) @ '', column ''
                               @ toString (j + 1))\<rparr>)
          else isValid_cells_inner grid i js)"

fun isValid_cells ::
  "SudokuGrid \<Rightarrow> nat list \<Rightarrow> js_error + ValidationResult option" where
  "isValid_cells grid [] = Inr None"
| "isValid_cells grid (i # is) =
     (case isValid_cells_inner grid i [0..<9] of
        Inl e \<Rightarrow> Inl e
      | Inr (Some r) \<Rightarrow> Inr (Some r)
      | Inr None \<Rightarrow> isValid_cells grid is)"

text \<open>\<open>hasAllDigits(grid[i])\<close> iterates \<open>grid[i]\<close>, which throws when the row is
  \<open>undefined\<close>.\<close>

fun isValid_rows ::
  "SudokuGrid \<Rightarrow> nat list \<Rightarrow> js_error + ValidationResult option" where
  "isValid_rows grid [] = Inr None"
| "isValid_rows grid (i # is) =
     (if i < length grid
      then (if \<not> hasAllDigits (map Num (grid ! i))
            then Inr (Some \<lparr>valid = False,
                   error = Some (''Row '' @ toString (i + 1) @ '' contains duplicate values'')\<rparr>)
            else isValid_rows grid is)
      else Inl TypeError)"

fun isValid_columns ::
  "SudokuGrid \<Rightarrow> nat list \<Rightarrow> js_error + ValidationResult option" where
  "isValid_columns grid [] = Inr None"
| "isValid_columns grid (j # js) =
     (case getColumn grid j of
        Inl e \<Rightarrow> Inl e
      | Inr column \<Rightarrow>
          if \<not> hasAllDigits column
          then Inr (Some \<lparr>valid = False,
                 error = Some (''Column '' @ toString (j + 1) @ '' contains duplicate values'')\<rparr>)
          else isValid_columns grid js)"

fun isValid_boxes ::
  "SudokuGrid \<Rightarrow> nat list \<Rightarrow> js_error + ValidationResult option" where
  "isValid_boxes grid [] = Inr None"
| "isValid_boxes grid (boxNum # rest) =
     (case getBox grid boxNum of
        Inl e \<Rightarrow> Inl e
      | Inr box \<Rightarrow>
          if \<not> hasAllDigits box
          then (let boxRow = boxNum div 3 + 1;
                    boxCol = boxNum mod 3 + 1
                in Inr (Some \<lparr>valid = False,
                     error = Some (''Box at position ('' @ toString boxRow @ '', ''
                                   @ toString boxCol @ '') contains duplicate values'')\<rparr>))
          else isValid_boxes grid rest)"

definition isValid :: "SudokuGrid \<Rightarrow> js_error + ValidationResult" where
  "isValid grid =
     (case isValid_cells grid [0..<9] of
        Inl e \<Rightarrow> Inl e
      | Inr (Some r) \<Rightarrow> Inr r
      | Inr None \<Rightarrow>
     (case isValid_rows grid [0..<9] of
        Inl e \<Rightarrow> Inl e
      | Inr (Some r) \<Rightarrow> Inr r
      | Inr None \<Rightarrow>
     (case isValid_columns grid [0..<9] of
        Inl e \<Rightarrow> Inl e
      | Inr (Some r) \<Rightarrow> Inr r
      | Inr None \<Rightarrow>
     (case isValid_boxes grid [0..<9] of
        Inl e \<Rightarrow> Inl e
      | Inr (Some r) \<Rightarrow> Inr r
      | Inr None \<Rightarrow> Inr \<lparr>valid = True, error = None\<rparr>))))"

subsection \<open>The scan order as the specification words it\<close>

text \<open>The violations of a grid, listed in the documented order: the cells row-major
  (a cell is in violation when it is empty or outside \<open>[1,9]\<close>), then the rows
  \<open>0..8\<close>, the columns \<open>0..8\<close> and the boxes \<open>0..8\<close> (each in violation when it does
  not contain each of \<open>1..9\<close> exactly once), box \<open>b\<close> having its top-left cell at
  \<open>(\<lfloor>b/3\<rfloor>\<cdot>3, (b mod 3)\<cdot>3)\<close>.\<close>

definition each_digit_once :: "int list \<Rightarrow> bool" where
  "each_digit_once xs = (\<forall>d \<in> {1..9}. count_list xs d = 1)"

definition spec_cell_violation :: "SudokuGrid \<Rightarrow> nat \<times> nat \<Rightarrow> string option" where
  "spec_cell_violation grid p =
     (case p of (i, j) \<Rightarrow>
        if grid ! i ! j = 0
        then Some (''Cell at row '' @ toString (i + 1) @ '', column ''
                   @ toString (j + 1) @ '' is empty'')
        else if grid ! i ! j \<notin> {1..9}
        then Some (''Invalid value at row '' @ toString (i + 1) @ '', column ''
                   @ toString (j + 1))
        else None)"

definition spec_row_violation :: "SudokuGrid \<Rightarrow> nat \<Rightarrow> string option" where
  "spec_row_violation grid i =
     (if each_digit_once (grid ! i) then None
      else Some (''Row '' @ toString (i + 1) @ '' contains duplicate values''))"

definition spec_column_violation :: "SudokuGrid \<Rightarrow> nat \<Rightarrow> string option" where
  "spec_column_violation grid j =
     (if each_digit_once (map (\<lambda>i. grid ! i ! j) [0..<9]) then None
      else Some (''Column '' @ toString (j + 1) @ '' contains duplicate values''))"

definition spec_box_cells :: "SudokuGrid \<Rightarrow> nat \<Rightarrow> int list" where
  "spec_box_cells grid b =
     map (\<lambda>(di, dj). grid ! ((b div 3) * 3 + di) ! ((b mod 3) * 3 + dj))
         (List.product [0..<3] [0..<3])"

definition spec_box_violation :: "SudokuGrid \<Rightarrow> nat \<Rightarrow> string option" where
  "spec_box_violation grid b =
     (if each_digit_once (spec_box_cells grid b) then None
      else Some (''Box at position ('' @ toString (b div 3 + 1) @ '', ''
                 @ toString (b mod 3 + 1) @ '') contains duplicate values''))"

definition spec_violations :: "SudokuGrid \<Rightarrow> string list" where
  "spec_violations grid =
       List.map_filter (spec_cell_violation grid) (List.product [0..<9] [0..<9])
     @ List.map_filter (spec_row_violation grid) [0..<9]
     @ List.map_filter (spec_column_violation grid) [0..<9]
     @ List.map_filter (spec_box_violation grid) [0..<9]"

definition spec_isValid :: "SudokuGrid \<Rightarrow> ValidationResult" where
  "spec_isValid grid =
     (case spec_violations grid of
        [] \<Rightarrow> \<lparr>valid = True, error = None\<rparr>
      | m # _ \<Rightarrow> \<lparr>valid = False, error = Some m\<rparr>)"

section \<open>SudokuValidator.matchesChallenge\<close>

text \<open>The loops return \<open>False\<close> for the early \<open>return false\<close> and \<open>True\<close> when they run
  to their end. The condition reads \<open>challenge[i][j]\<close> first and \<open>solution[i][j]\<close> only
  when the challenge cell is not \<open>0\<close>.\<close>

fun matchesChallenge_inner ::
  "SudokuGrid \<Rightarrow> SudokuGrid \<Rightarrow> nat \<Rightarrow> nat list \<Rightarrow> js_error + bool" where
  "matchesChallenge_inner solution challenge i [] = Inr True"
| "matchesChallenge_inner solution challenge i (j # js) =
     (case cell challenge i j of
        Inl e \<Rightarrow> Inl e
      | Inr c \<Rightarrow>
          if c \<noteq> Num 0
          then (case cell solution i j of
                  Inl e \<Rightarrow> Inl e
                | Inr s \<Rightarrow> if s \<noteq> c then Inr False
                          else matchesChallenge_inner solution challenge i js)
          else matchesChallenge_inner solution challenge i js)"

fun matchesChallenge_outer ::
  "SudokuGrid \<Rightarrow> SudokuGrid \<Rightarrow> nat list \<Rightarrow> js_error + bool" where
  "matchesChallenge_outer solution challenge [] = Inr True"
| "matchesChallenge_outer solution challenge (i # is) =
     (case matchesChallenge_inner solution challenge i [0..<9] of
        Inl e \<Rightarrow> Inl e
      | Inr ok \<Rightarrow> if ok then matchesChallenge_outer solution challenge is
                 else Inr False)"

definition matchesChallenge :: "SudokuGrid \<Rightarrow> SudokuGrid \<Rightarrow> js_error + bool" where
  "matchesChallenge solution challenge = matchesChallenge_outer solution challenge [0..<9]"

text \<open>The assignment \<open>grid[row][col] = value\<close> on a cell of the grid.\<close>

definition set_cell :: "SudokuGrid \<Rightarrow> nat \<Rightarrow> nat \<Rightarrow> int \<Rightarrow> SudokuGrid" where
  "set_cell grid row col v = grid[row := (grid ! row)[col := v]]"

text \<open>The cells of the box of \<open>(row, col)\<close>, as \<open>getConflicts\<close> computes its bounds.\<close>

definition in_box_of :: "nat \<Rightarrow> nat \<Rightarrow> nat \<Rightarrow> nat \<Rightarrow> bool" where
  "in_box_of row col i j =
     ((row div 3) * 3 \<le> i \<and> i < (row div 3) * 3 + 3
      \<and> (col div 3) * 3 \<le> j \<and> j < (col div 3) * 3 + 3)"

section \<open>ProofUtils.generateFieldElement\<close>

type_synonym byte = "8 word"

definition MODULUS :: int where
  "MODULUS = 21888242871839275222246405745257275088548364400416034343698204186575808495617"

text \<open>\<open>crypto.getRandomValues\<close> is the environment: an endless supply of bytes, read
  from a position that advances with each draw. Filling an \<open>n\<close>-byte array takes the
  next \<open>n\<close> bytes.\<close>

type_synonym entropy = "nat \<Rightarrow> byte"

definition getRandomValues :: "entropy \<Rightarrow> nat \<Rightarrow> nat \<Rightarrow> byte list" where
  "getRandomValues src pos n = map src [pos..<pos + n]"

text \<open>The inner loop \<open>x = (x << 8n) | BigInt(bytes[i])\<close> over a byte array.\<close>

fun bytes_to_bigint :: "int \<Rightarrow> byte list \<Rightarrow> int" where
  "bytes_to_bigint x [] = x"
| "bytes_to_bigint x (b # bs) = bytes_to_bigint (push_bit 8 x OR uint b) bs"

text \<open>One pass of the body of \<open>for (;;)\<close> up to the test: draw 32 bytes,
  \<open>bytes[0] &= 0x3f\<close>, fold the bytes big-endian.\<close>

definition draw_candidate :: "entropy \<Rightarrow> nat \<Rightarrow> int" where
  "draw_candidate src pos =
     (let bytes = getRandomValues src pos 32;
          bytes = bytes[0 := (bytes ! 0) AND 0x3f]
      in bytes_to_bigint 0 bytes)"

text \<open>The loop \<open>for (;;)\<close> has no bound: a source whose every draw is rejected keeps it
  running, which is the value \<open>None\<close>. The result carries the position after the last
  draw.\<close>

partial_function (option) generateFieldElement_loop ::
  "entropy \<Rightarrow> nat \<Rightarrow> (int \<times> nat) option" where
  "generateFieldElement_loop src pos =
     (if draw_candidate src pos < MODULUS then Some (draw_candidate src pos, pos + 32)
      else generateFieldElement_loop src (pos + 32))"

text \<open>\<open>BigInt.prototype.toString()\<close>, and reading a string of decimal digits back as
  an integer.\<close>

definition bigint_toString :: "int \<Rightarrow> string" where
  "bigint_toString x = (if x < 0 then CHR ''-'' # toString (nat (- x)) else toString (nat x))"

definition digit_value :: "char \<Rightarrow> nat" where
  "digit_value c = of_char c - 48"

definition decimal_value :: "string \<Rightarrow> int" where
  "decimal_value s = int (foldl (\<lambda>n c. 10 * n + digit_value c) 0 s)"

definition generateFieldElement :: "entropy \<Rightarrow> nat \<Rightarrow> (string \<times> nat) option" where
  "generateFieldElement src pos =
     map_option (\<lambda>(rand, pos'). (bigint_toString rand, pos')) (generateFieldElement_loop src pos)"

section \<open>Hex encoding of proofs\<close>

record ProofData =
  pd_proof :: "byte list"
  pd_publicInputs :: "string list"


text \<open>\<open>String.prototype.padStart(n, c)\<close> with a one-character pad.\<close>

definition padStart :: "nat \<Rightarrow> char \<Rightarrow> string \<Rightarrow> string" where
  "padStart n c s = replicate (n - length s) c @ s"

text \<open>\<open>Array.from(bytes).map(b => b.toString(16).padStart(2, '0')).join('')\<close>.\<close>

definition byte_hex :: "byte \<Rightarrow> string" where
  "byte_hex b = padStart 2 (CHR ''0'') (toStringRadix 16 (unat b))"

definition hex_of_bytes :: "byte list \<Rightarrow> string" where
  "hex_of_bytes bs = concat (map byte_hex bs)"


subsection \<open>Parsing the proof hex in performVerification\<close>

text \<open>Characters are code units below 256. The white space of \<open>trim()\<close> and of \<open>\s\<close>
  in that range: tab, line feed, vertical tab, form feed, carriage return, space and
  no-break space.\<close>

definition is_space :: "char \<Rightarrow> bool" where
  "is_space c = (of_char c \<in> {9, 10, 11, 12, 13, 32, 160 :: nat})"




text \<open>\<open>/^[0-9a-fA-F]+$/\<close>: at least one character, all of them hex digits.\<close>

definition is_hex_digit :: "char \<Rightarrow> bool" where
  "is_hex_digit c = (c \<in> set ''0123456789abcdefABCDEF'')"


text \<open>\<open>.match(/.{1,2}/g)\<close> on a string of hex digits: pairs from the left, a last
  single character when the length is odd.\<close>

fun chunks2 :: "string \<Rightarrow> string list" where
  "chunks2 (a # b # rest) = [a, b] # chunks2 rest"
| "chunks2 [a] = [[a]]"
| "chunks2 [] = []"

text \<open>\<open>parseInt(s, 16)\<close> on a string of hex digits.\<close>

definition hex_value :: "char \<Rightarrow> nat" where
  "hex_value c =
     (if c \<in> set ''0123456789'' then of_char c - 48
      else if c \<in> set ''abcdef'' then of_char c - 87
      else of_char c - 55)"

definition parseInt16 :: "string \<Rightarrow> nat" where
  "parseInt16 s = foldl (\<lambda>n c. 16 * n + hex_value c) 0 s"


section \<open>The proof fingerprint\<close>

text \<open>\<open>str.slice(0, n)\<close> is \<open>take n\<close>; \<open>str.slice(-n)\<close> is the last \<open>n\<close> characters, the
  whole string when it is shorter.\<close>

definition slice_last :: "nat \<Rightarrow> string \<Rightarrow> string" where
  "slice_last n s = drop (length s - n) s"

text \<open>\<open>ProofUtils.hashProof\<close>.\<close>

definition hashProof :: "byte list \<Rightarrow> string" where
  "hashProof prf =
     (let proofStr = hex_of_bytes (take 32 prf)
      in take 8 proofStr @ ''...'' @ slice_last 8 proofStr)"

text \<open>\<open>PseudokuGame.hashProof\<close> of the game class.\<close>

definition PseudokuGame_hashProof :: "byte list \<Rightarrow> string" where
  "PseudokuGame_hashProof prf =
     (let proofStr = hex_of_bytes (take 32 prf)
      in ''0x'' @ take 6 proofStr @ ''...'' @ slice_last 6 proofStr)"

section \<open>GitHubOAuth.handleCallback\<close>

text \<open>The browser state the callback touches: \<open>sessionStorage\<close>, the build-time
  variable \<open>import.meta.env.OAUTH_API_ENDPOINT\<close>, and the requests issued with
  \<open>fetch\<close> so far. The body of the request is kept as its two fields rather than as
  JSON text.\<close>

record request =
  req_url :: string
  req_method :: string
  req_code :: string
  req_state :: string

record browser =
  sessionStorage :: "string \<rightharpoonup> string"
  OAUTH_API_ENDPOINT :: "string option"
  requests :: "request list"

text \<open>What \<open>fetch\<close> gives back is the environment's choice: the promise rejects, or
  it resolves to a response with its \<open>ok\<close> flag and a body, which cannot be read as
  a JSON object or is one whose \<open>access_token\<close> is present or not.\<close>

datatype response_body = NotJson | Json "string option"

datatype fetch_outcome = Rejected | Response bool response_body

text \<open>\<open>handleCallback\<close> returns the token, \<open>None\<close> for both \<open>null\<close> and a missing
  \<open>access_token\<close>, or throws. Every throw inside \<open>try\<close> is caught and turned into
  \<open>null\<close>; \<open>console.error\<close> is not modelled. \<open>getItem\<close> returns \<open>null\<close> for a
  missing key, which differs from every string.\<close>

definition handleCallback ::
  "(request \<Rightarrow> fetch_outcome) \<Rightarrow> string \<Rightarrow> string \<Rightarrow> browser
     \<Rightarrow> (js_error + string option) \<times> browser" where
  "handleCallback fetch code state b =
     (let savedState = sessionStorage b ''oauth_state''
      in if Some state \<noteq> savedState
         then (Inl (Error ''Invalid OAuth state''), b)
         else
           (let b1 = b\<lparr>sessionStorage := (sessionStorage b)(''oauth_state'' := None)\<rparr>;
                backendUrl = OAUTH_API_ENDPOINT b1
            in case backendUrl of
                 None \<Rightarrow> (Inl (Error ''Backend server not configured for OAuth''), b1)
               | Some url \<Rightarrow>
                   if url = [] then (Inl (Error ''Backend server not configured for OAuth''), b1)
                   else
                     (let req = \<lparr>req_url = url @ ''/auth/github/callback'', req_method = ''POST'',
                                 req_code = code, req_state = state\<rparr>;
                          b2 = b1\<lparr>requests := requests b1 @ [req]\<rparr>
                      in case fetch req of
                           Rejected \<Rightarrow> (Inr None, b2)
                         | Response ok body \<Rightarrow>
                             if \<not> ok then (Inr None, b2)
                             else (case body of
                                     NotJson \<Rightarrow> (Inr None, b2)
                                   | Json token \<Rightarrow> (Inr token, b2)))))"

section \<open>The game session\<close>

text \<open>The prover is an external collaborator: its three operations are parameters,
  each returning a value or throwing. \<open>verifyProof\<close> receives an object with the fields
  \<open>proof\<close> and \<open>publicInputs\<close>; at run time the second is whatever array the caller
  put there, so the operation takes the two fields, the public inputs as the JSON
  values they are. The session records every call made to the prover, at the moment
  the call is made.\<close>

text \<open>The values \<open>JSON.parse\<close> can return, as far as the program tells them apart:
  \<open>JOther\<close> stands for \<open>null\<close>, booleans, numbers and objects.\<close>

datatype json = JString string | JArray "json list" | JOther

type_synonym witness = "byte list"

type_synonym CircuitInputs = "(string \<times> SudokuGrid) \<times> (string \<times> SudokuGrid)"

record prover =
  noir_execute :: "CircuitInputs \<Rightarrow> js_error + witness"
  backend_generateProof :: "witness \<Rightarrow> js_error + ProofData"
  backend_verifyProof :: "byte list \<Rightarrow> json list \<Rightarrow> js_error + bool"

datatype prover_call =
    Execute CircuitInputs
  | GenerateProof witness
  | VerifyProof "byte list" "json list"

datatype StatusType = StInfo | StSuccess | StError | StLoading

text \<open>\<open>generateProof\<close> and \<open>performVerification\<close> are \<open>async\<close>: each runs up to an
  \<open>await\<close> on a promise of the prover and is resumed when that promise settles, and
  other handlers of the page run in between. A suspended function is a task: the
  promise it waits for, with the local values its continuation needs.\<close>

datatype task =
    AwaitExecute CircuitInputs
  | AwaitGenerateProof witness
  | AwaitVerifyProof ProofData
  | AwaitExternalVerify "byte list" "json list"

text \<open>The fields of \<open>PseudokuGame\<close>, with the pieces of the page the handlers read or
  write: the \<open>disabled\<close> flag of \<open>generateProofBtn\<close>, the status line and the result
  line of the verification dialog. \<open>noir\<close> and \<open>backend\<close> say whether the fields are
  non-null; \<open>timerInterval\<close> whether the timer runs (its callback is what writes
  \<open>elapsedTime\<close>). \<open>pending\<close> holds the suspended tasks.\<close>

record game =
  grid :: SudokuGrid
  fixedCells :: "bool list list"
  timerInterval :: bool
  elapsedTime :: int
  fieldElement :: string
  g_proof :: "ProofData option"
  proofTime :: "int option"
  gistUrl :: "string option"
  noir :: bool
  backend :: bool
  generateProofBtn_disabled :: bool
  status :: "string \<times> StatusType"
  verifyResult :: "(string \<times> bool) option"
  prover_calls :: "prover_call list"
  pending :: "task list"

definition showStatus :: "string \<Rightarrow> StatusType \<Rightarrow> game \<Rightarrow> game" where
  "showStatus message ty s = s\<lparr>status := (message, ty)\<rparr>"

definition showVerifyResult :: "string \<Rightarrow> bool \<Rightarrow> game \<Rightarrow> game" where
  "showVerifyResult message ok s = s\<lparr>verifyResult := Some (message, ok)\<rparr>"

definition stopTimer :: "game \<Rightarrow> game" where
  "stopTimer s = s\<lparr>timerInterval := False\<rparr>"

subsection \<open>checkSolution\<close>

text \<open>The four scans of \<open>PseudokuGame.checkSolution\<close>; \<open>hasAllDigits\<close> and \<open>getBox\<close>
  of the class are the code of the validator's, read on \<open>this.grid\<close>, and the column
  is collected as \<open>getColumn\<close> does. The cell scan says whether it met an empty cell;
  the others return the index at which they stopped.\<close>

fun checkSolution_cells_inner :: "SudokuGrid \<Rightarrow> nat \<Rightarrow> nat list \<Rightarrow> js_error + bool" where
  "checkSolution_cells_inner g i [] = Inr False"
| "checkSolution_cells_inner g i (j # js) =
     (case cell g i j of
        Inl e \<Rightarrow> Inl e
      | Inr x \<Rightarrow> if x = Num 0 then Inr True else checkSolution_cells_inner g i js)"

fun checkSolution_cells :: "SudokuGrid \<Rightarrow> nat list \<Rightarrow> js_error + bool" where
  "checkSolution_cells g [] = Inr False"
| "checkSolution_cells g (i # is) =
     (case checkSolution_cells_inner g i [0..<9] of
        Inl e \<Rightarrow> Inl e
      | Inr found \<Rightarrow> if found then Inr True else checkSolution_cells g is)"

fun checkSolution_rows :: "SudokuGrid \<Rightarrow> nat list \<Rightarrow> js_error + nat option" where
  "checkSolution_rows g [] = Inr None"
| "checkSolution_rows g (i # is) =
     (if i < length g
      then (if \<not> hasAllDigits (map Num (g ! i)) then Inr (Some i)
            else checkSolution_rows g is)
      else Inl TypeError)"

fun checkSolution_columns :: "SudokuGrid \<Rightarrow> nat list \<Rightarrow> js_error + nat option" where
  "checkSolution_columns g [] = Inr None"
| "checkSolution_columns g (j # js) =
     (case getColumn g j of
        Inl e \<Rightarrow> Inl e
      | Inr column \<Rightarrow> if \<not> hasAllDigits column then Inr (Some j)
                      else checkSolution_columns g js)"

fun checkSolution_boxes :: "SudokuGrid \<Rightarrow> nat list \<Rightarrow> js_error + nat option" where
  "checkSolution_boxes g [] = Inr None"
| "checkSolution_boxes g (boxNum # rest) =
     (case getBox g boxNum of
        Inl e \<Rightarrow> Inl e
      | Inr box \<Rightarrow> if \<not> hasAllDigits box then Inr (Some boxNum)
                   else checkSolution_boxes g rest)"

text \<open>\<open>checkSolution\<close> returns its boolean and the session after it. A failed scan
  only shows a status; success stops the timer and enables the proof button.\<close>

definition checkSolution :: "game \<Rightarrow> js_error + bool \<times> game" where
  "checkSolution s =
     (case checkSolution_cells (grid s) [0..<9] of
        Inl e \<Rightarrow> Inl e
      | Inr True \<Rightarrow> Inr (False, showStatus ''Please fill in all cells'' StError s)
      | Inr False \<Rightarrow>
     (case checkSolution_rows (grid s) [0..<9] of
        Inl e \<Rightarrow> Inl e
      | Inr (Some i) \<Rightarrow>
          Inr (False, showStatus (''Row '' @ toString (i + 1) @ '' is incorrect'') StError s)
      | Inr None \<Rightarrow>
     (case checkSolution_columns (grid s) [0..<9] of
        Inl e \<Rightarrow> Inl e
      | Inr (Some j) \<Rightarrow>
          Inr (False, showStatus (''Column '' @ toString (j + 1) @ '' is incorrect'') StError s)
      | Inr None \<Rightarrow>
     (case checkSolution_boxes (grid s) [0..<9] of
        Inl e \<Rightarrow> Inl e
      | Inr (Some boxNum) \<Rightarrow>
          Inr (False, showStatus (''Box '' @ toString (boxNum + 1) @ '' is incorrect'') StError s)
      | Inr None \<Rightarrow>
          Inr (True,
               (showStatus ''Solution is correct! You can now generate a proof.'' StSuccess
                  (stopTimer s))\<lparr>generateProofBtn_disabled := False\<rparr>)))))"

subsection \<open>generateProof\<close>

text \<open>\<open>BigInt(this.fieldElement)\<close>. The field holds what \<open>generateFieldElement\<close>
  returned, a string of decimal digits; the model reads those and throws on any other
  string (JavaScript also accepts a few other literal forms, which the program never
  stores).\<close>

definition is_digit :: "char \<Rightarrow> bool" where
  "is_digit c = (c \<in> set ''0123456789'')"

definition BigInt :: "string \<Rightarrow> js_error + int" where
  "BigInt s = (if s \<noteq> [] \<and> list_all is_digit s then Inr (decimal_value s) else Inl SyntaxError)"

fun error_message :: "js_error \<Rightarrow> string" where
  "error_message (Error m) = m"
| "error_message TypeError = ''TypeError''"
| "error_message SyntaxError = ''SyntaxError''"

definition log_call :: "prover_call \<Rightarrow> game \<Rightarrow> game" where
  "log_call c s = s\<lparr>prover_calls := prover_calls s @ [c]\<rparr>"

definition suspend :: "task \<Rightarrow> game \<Rightarrow> game" where
  "suspend t s = s\<lparr>pending := pending s @ [t]\<rparr>"

text \<open>The \<open>catch\<close> block of \<open>generateProof\<close>, and the statement after the
  \<open>try\<close>/\<open>catch\<close>, which enables the proof button whatever happened.\<close>

definition generateProof_catch :: "js_error \<Rightarrow> game \<Rightarrow> game" where
  "generateProof_catch e s = showStatus (''Error generating proof: '' @ error_message e) StError s"

definition generateProof_end :: "game \<Rightarrow> game" where
  "generateProof_end s = s\<lparr>generateProofBtn_disabled := False\<rparr>"

text \<open>\<open>generateProof\<close> from its call to its first \<open>await\<close>: the guard on the proof
  system, the status, the button, the circuit inputs, and the call of
  \<open>noir.execute\<close>, on whose promise it suspends. The call is recorded with the grid
  as it is when the call is made. There is no test of the grid or of an earlier
  \<open>checkSolution\<close>.\<close>

definition generateProof :: "prover \<Rightarrow> game \<Rightarrow> game" where
  "generateProof P s =
     (if \<not> noir s \<or> \<not> backend s
      then showStatus ''Proof system not initialized. Please refresh the page.'' StError s
      else
        (let s1 = showStatus ''Generating proof... This may take a moment.'' StLoading s;
             s2 = s1\<lparr>generateProofBtn_disabled := True\<rparr>
         in case BigInt (fieldElement s2) of
              Inl e \<Rightarrow> generateProof_end (generateProof_catch e s2)
            | Inr fieldValue \<Rightarrow>
                (let inputs = ((bigint_toString fieldValue, grid s2),
                               (bigint_toString fieldValue, CHALLENGE_PUZZLES_default))
                 in suspend (AwaitExecute inputs) (log_call (Execute inputs) s2))))"

subsection \<open>performVerification\<close>



subsection \<open>Resuming a suspended task\<close>

text \<open>What runs when the awaited promise settles, up to the next \<open>await\<close> or to the
  end of the function. A rejected promise throws at the \<open>await\<close>, into the \<open>catch\<close>
  block. The two result lines of the dialog start with a check mark and a cross,
  written here as their UTF-8 bytes.\<close>

fun resume :: "prover \<Rightarrow> task \<Rightarrow> game \<Rightarrow> game" where
  "resume P (AwaitExecute inputs) s =
     (case noir_execute P inputs of
        Inl e \<Rightarrow> generateProof_end (generateProof_catch e s)
      | Inr w \<Rightarrow> suspend (AwaitGenerateProof w) (log_call (GenerateProof w) s))"
| "resume P (AwaitGenerateProof w) s =
     (case backend_generateProof P w of
        Inl e \<Rightarrow> generateProof_end (generateProof_catch e s)
      | Inr proofData \<Rightarrow>
          suspend (AwaitVerifyProof proofData)
            (log_call (VerifyProof (pd_proof proofData)
                         (map JString (pd_publicInputs proofData))) s))"
| "resume P (AwaitVerifyProof proofData) s =
     (case backend_verifyProof P (pd_proof proofData)
             (map JString (pd_publicInputs proofData)) of
        Inl e \<Rightarrow> generateProof_end (generateProof_catch e s)
      | Inr isValid' \<Rightarrow>
          generateProof_end
            (if isValid'
             then showStatus ''Proof generated and verified successfully!'' StSuccess
                    (s\<lparr>g_proof := Some proofData, proofTime := Some (elapsedTime s)\<rparr>)
             else showStatus ''Proof verification failed. Please try again.'' StError s))"
| "resume P (AwaitExternalVerify proofArray publicInputs) s =
     (case backend_verifyProof P proofArray publicInputs of
        Inl e \<Rightarrow> showVerifyResult (''Error: '' @ error_message e) False s
      | Inr isValid' \<Rightarrow>
          if isValid'
          then showVerifyResult ([CHR 0xE2, CHR 0x9C, CHR 0x93] @ '' Valid proof!'') True s
          else showVerifyResult ([CHR 0xE2, CHR 0x9C, CHR 0x97] @ '' Invalid proof'') False s)"

text \<open>The promise of the \<open>k\<close>-th pending task settles.\<close>

definition settle :: "prover \<Rightarrow> nat \<Rightarrow> game \<Rightarrow> game" where
  "settle P k s =
     (if k < length (pending s)
      then resume P (pending s ! k) (s\<lparr>pending := take k (pending s) @ drop (Suc k) (pending s)\<rparr>)
      else s)"

subsection \<open>Cell input and reset\<close>

text \<open>\<open>handleCellInput\<close> for the cell rendered at \<open>(row, col)\<close> holding the text
  \<open>value\<close>. Only the 81 rendered cells raise the event, so the assignment is in range;
  for any other position the model leaves the session as it is. The conflict
  highlighting changes the page only. Nothing here touches \<open>generateProofBtn\<close>.\<close>

definition handleCellInput :: "nat \<Rightarrow> nat \<Rightarrow> string \<Rightarrow> game \<Rightarrow> game" where
  "handleCellInput row col v s =
     (if v \<noteq> [] \<and> \<not> (length v = 1 \<and> hd v \<in> set ''123456789'') then s
      else if row < length (grid s) \<and> col < length (grid s ! row)
      then s\<lparr>grid := set_cell (grid s) row col (if v \<noteq> [] then int (digit_value (hd v)) else 0)\<rparr>
      else s)"

definition initializeGame :: "game \<Rightarrow> game" where
  "initializeGame s =
     s\<lparr>grid := CHALLENGE_PUZZLES_default,
       fixedCells := map (map (\<lambda>x. x \<noteq> 0)) CHALLENGE_PUZZLES_default,
       timerInterval := True\<rparr>"

text \<open>\<open>reset\<close>: \<open>confirmed\<close> is the answer to \<open>confirm(...)\<close>, \<open>fresh\<close> the string the
  call of \<open>generateFieldElement\<close> returns.\<close>

definition reset :: "bool \<Rightarrow> string \<Rightarrow> game \<Rightarrow> game" where
  "reset confirmed fresh s =
     (if confirmed
      then showStatus ''Game reset. Good luck!'' StInfo
             (initializeGame
                ((stopTimer s)\<lparr>g_proof := None, gistUrl := None, fieldElement := fresh,
                               generateProofBtn_disabled := True\<rparr>))
      else s)"

subsection \<open>Clicks on the two buttons of the solving flow\<close>

text \<open>\<open>setupEventListeners\<close> registers \<open>checkSolution\<close> on \<open>checkBtn\<close> and
  \<open>generateProof\<close> on \<open>generateProofBtn\<close>. The listener drops the boolean of
  \<open>checkSolution\<close>; an exception ends the handler, and \<open>checkSolution\<close> changes
  nothing before it can throw. A disabled button raises no click event, so a click on
  \<open>generateProofBtn\<close> runs \<open>generateProof\<close> only while the flag is off.\<close>

definition click_checkBtn :: "game \<Rightarrow> game" where
  "click_checkBtn s = (case checkSolution s of Inl e \<Rightarrow> s | Inr (ok, s') \<Rightarrow> s')"

definition click_generateProofBtn :: "prover \<Rightarrow> game \<Rightarrow> game" where
  "click_generateProofBtn P s = (if generateProofBtn_disabled s then s else generateProof P s)"

text \<open>A sequence of inputs into cells, each given as row, column and text.\<close>

fun type_cells :: "(nat \<times> nat \<times> string) list \<Rightarrow> game \<Rightarrow> game" where
  "type_cells [] s = s"
| "type_cells ((row, col, v) # rest) s = type_cells rest (handleCellInput row col v s)"

section \<open>Auxiliary definitions for the statements\<close>

text \<open>What a scan reports for a list of violations: nothing, or the first one.\<close>

definition report :: "string list \<Rightarrow> ValidationResult option" where
  "report ms = (case ms of [] \<Rightarrow> None | m # _ \<Rightarrow> Some \<lparr>valid = False, error = Some m\<rparr>)"

text \<open>The sampler's result \<open>y\<close> is the first candidate below the modulus, counted in
  draws from position \<open>pos\<close>.\<close>

definition accepted_at :: "entropy \<Rightarrow> nat \<Rightarrow> int \<times> nat \<Rightarrow> bool" where
  "accepted_at src pos y =
     (\<exists>k. snd y = pos + 32 * (k + 1) \<and> fst y = draw_candidate src (pos + 32 * k) \<and> fst y < MODULUS
         \<and> (\<forall>k' < k. MODULUS \<le> draw_candidate src (pos + 32 * k')))"

definition is_lower_hex_digit :: "char \<Rightarrow> bool" where
  "is_lower_hex_digit c = (c \<in> set ''0123456789abcdef'')"

subsection \<open>Concrete inputs\<close>

text \<open>The solution of the challenge puzzle.\<close>

definition solved_grid :: SudokuGrid where
  "solved_grid =
    [[5, 3, 4, 6, 7, 8, 9, 1, 2],
     [6, 7, 2, 1, 9, 5, 3, 4, 8],
     [1, 9, 8, 3, 4, 2, 5, 6, 7],
     [8, 5, 9, 7, 6, 1, 4, 2, 3],
     [4, 2, 6, 8, 5, 3, 7, 9, 1],
     [7, 1, 3, 9, 2, 4, 8, 5, 6],
     [9, 6, 1, 5, 3, 7, 2, 8, 4],
     [2, 8, 7, 4, 1, 9, 6, 3, 5],
     [3, 4, 5, 2, 8, 6, 1, 7, 9]]"

text \<open>An entropy source whose first draw is all ones, so that the masked candidate is
  \<open>2^254 - 1\<close> and is rejected, and whose second draw is the number 7.\<close>

definition example_entropy :: entropy where
  "example_entropy i = (if i < 32 then 255 else if i = 63 then 7 else 0)"

text \<open>A browser in the middle of an OAuth round trip.\<close>

definition example_browser :: browser where
  "example_browser =
     \<lparr>sessionStorage = [''oauth_state'' \<mapsto> ''abc123''],
      OAUTH_API_ENDPOINT = Some ''https://backend.example'',
      requests = []\<rparr>"

text \<open>A prover whose \<open>execute\<close> rejects every input, and a session that has just
  been reset: the challenge grid with its empty cells, the proof system initialised, the
  proof button disabled, nothing in flight.\<close>

definition example_prover :: prover where
  "example_prover =
     \<lparr>noir_execute = (\<lambda>inputs. Inl (Error ''Cannot satisfy constraint'')),
      backend_generateProof = (\<lambda>w. Inr \<lparr>pd_proof = w, pd_publicInputs = []\<rparr>),
      backend_verifyProof = (\<lambda>prf inputs. Inr True)\<rparr>"

definition editing_session :: game where
  "editing_session =
     \<lparr>grid = CHALLENGE_PUZZLES_default,
      fixedCells = map (map (\<lambda>x. x \<noteq> 0)) CHALLENGE_PUZZLES_default,
      timerInterval = True, elapsedTime = 0, fieldElement = ''7'',
      g_proof = None, proofTime = None, gistUrl = None,
      noir = True, backend = True, generateProofBtn_disabled = True,
      status = (''Game reset. Good luck!'', StInfo), verifyResult = None,
      prover_calls = [], pending = []\<rparr>"

text \<open>Typing the solution into the empty cells, row by row; the session after that,
  after a click on the check button, and after the cell \<open>(0,2)\<close> has then been
  cleared.\<close>

definition solving_inputs :: "(nat \<times> nat \<times> string) list" where
  "solving_inputs =
     concat (map (\<lambda>i. concat (map (\<lambda>j.
        if CHALLENGE_PUZZLES_default ! i ! j = 0
        then [(i, j, [digit_char (nat (solved_grid ! i ! j))])] else [])
        [0..<9])) [0..<9])"

definition typed_session :: game where
  "typed_session = type_cells solving_inputs editing_session"

definition checked_session :: game where
  "checked_session = click_checkBtn typed_session"

definition edited_session :: game where
  "edited_session = handleCellInput 0 2 [] checked_session"



section \<open>Reading a nine by nine grid\<close>

lemma cell_grid9: "grid9 g \<Longrightarrow> i < 9 \<Longrightarrow> j < 9 \<Longrightarrow> cell g i j = Inr (Num (g ! i ! j))"
  by (simp add: grid9_def cell_def list_all_length)

lemma grid9_set_cell: "grid9 g \<Longrightarrow> grid9 (set_cell g i j v)"
  by (cases "i < length g")
     (auto simp: grid9_def set_cell_def list_all_length nth_list_update)

lemma nth_set_cell:
  "grid9 g \<Longrightarrow> i < 9 \<Longrightarrow> j < 9 \<Longrightarrow> i' < 9 \<Longrightarrow> j' < 9 \<Longrightarrow>
     set_cell g i j v ! i' ! j' = (if i' = i \<and> j' = j then v else g ! i' ! j')"
  by (auto simp: grid9_def set_cell_def list_all_length nth_list_update)

lemma grid9_default: "grid9 CHALLENGE_PUZZLES_default"
  by (simp add: grid9_def CHALLENGE_PUZZLES_default_def)

lemma grid9_solved: "grid9 solved_grid"
  by (simp add: grid9_def solved_grid_def)

section \<open>isValid follows the documented scan order\<close>

lemma map_filter_append:
  "List.map_filter f (xs @ ys) = List.map_filter f xs @ List.map_filter f ys"
  by (simp add: List.map_filter_def)

lemma map_filter_map:
  "List.map_filter f (map g xs) = List.map_filter (\<lambda>x. f (g x)) xs"
  by (simp add: List.map_filter_def comp_def filter_map)

lemma case_list_append:
  "(case xs @ ys of [] \<Rightarrow> a | m # _ \<Rightarrow> f m) =
     (case xs of [] \<Rightarrow> (case ys of [] \<Rightarrow> a | m # _ \<Rightarrow> f m) | m # _ \<Rightarrow> f m)"
  by (cases xs) simp_all

lemma report_simps [simp]:
  "report [] = None" "report (m # ms) = Some \<lparr>valid = False, error = Some m\<rparr>"
  by (simp_all add: report_def)

lemma report_append:
  "report (xs @ ys) = (case report xs of None \<Rightarrow> report ys | Some r \<Rightarrow> Some r)"
  by (cases xs) simp_all

lemma isValid_cells_inner_spec:
  assumes "grid9 g" "i < 9" "\<forall>j \<in> set js. j < 9"
  shows "isValid_cells_inner g i js
           = Inr (report (List.map_filter (\<lambda>j. spec_cell_violation g (i, j)) js))"
  using assms(3)
proof (induction js)
  case Nil
  then show ?case by (simp add: List.map_filter_simps)
next
  case (Cons j js)
  then have j: "j < 9" by simp
  have c: "cell g i j = Inr (Num (g ! i ! j))"
    using assms(1,2) j by (rule cell_grid9)
  show ?case using Cons
    by (auto simp: c spec_cell_violation_def List.map_filter_simps)
qed

lemma isValid_cells_spec:
  assumes "grid9 g" "\<forall>i \<in> set is. i < 9"
  shows "isValid_cells g is
           = Inr (report (List.map_filter (spec_cell_violation g) (List.product is [0..<9])))"
  using assms(2)
proof (induction "is")
  case Nil
  then show ?case by (simp add: List.map_filter_simps)
next
  case (Cons i "is")
  then have i: "i < 9" by simp
  have inner: "isValid_cells_inner g i [0..<9]
           = Inr (report (List.map_filter (\<lambda>j. spec_cell_violation g (i, j)) [0..<9]))"
    using assms(1) i by (rule isValid_cells_inner_spec) simp
  show ?case using Cons
    by (simp add: inner map_filter_append map_filter_map report_append split: option.splits)
qed


lemma hasAllDigits_loop_iff:
  assumes "finite seen"
  shows "hasAllDigits_loop (map Num xs) seen \<longleftrightarrow>
           (\<forall>x \<in> set xs. 1 \<le> x \<and> x \<le> 9) \<and> distinct xs \<and> Num ` set xs \<inter> seen = {}
           \<and> card (seen \<union> Num ` set xs) = 9"
  using assms
proof (induction xs arbitrary: seen)
  case Nil
  then show ?case by simp
next
  case (Cons x xs)
  have fin: "finite (insert (Num x) seen)" using Cons.prems by simp
  show ?case
    using Cons.IH [OF fin] by (auto simp: image_iff)
qed

lemma hasAllDigits_ints:
  "hasAllDigits (map Num xs) \<longleftrightarrow>
     (\<forall>x \<in> set xs. 1 \<le> x \<and> x \<le> 9) \<and> distinct xs \<and> card (set xs) = 9"
proof -
  have inj: "inj_on Num (set xs)" by (simp add: inj_on_def)
  show ?thesis
    unfolding hasAllDigits_def
    by (simp add: hasAllDigits_loop_iff card_image [OF inj])
qed

lemma count_list_1_distinct:
  "distinct xs \<Longrightarrow> x \<in> set xs \<Longrightarrow> count_list xs x = 1"
  by (induction xs) auto

lemma each_digit_once_iff:
  assumes len: "length xs = 9"
  shows "each_digit_once xs \<longleftrightarrow>
     (\<forall>x \<in> set xs. 1 \<le> x \<and> x \<le> 9) \<and> distinct xs \<and> card (set xs) = 9"
proof
  assume edo: "each_digit_once xs"
  have sub: "{1..9} \<subseteq> set xs"
  proof
    fix d :: int assume "d \<in> {1..9}"
    then have "count_list xs d = 1" using edo by (simp add: each_digit_once_def)
    then show "d \<in> set xs" by (metis count_list_0_iff zero_neq_one)
  qed
  have c9: "card {1..9::int} = 9" by simp
  have "card {1..9::int} \<le> card (set xs)" using sub by (intro card_mono) simp_all
  moreover have "card (set xs) \<le> length xs" by (rule card_length)
  ultimately have card: "card (set xs) = 9" using len c9 by simp
  then have eq: "set xs = {1..9}" using sub c9
    by (metis List.finite_set card_subset_eq)
  have "distinct xs" using card len by (simp add: card_distinct)
  then show "(\<forall>x \<in> set xs. 1 \<le> x \<and> x \<le> 9) \<and> distinct xs \<and> card (set xs) = 9"
    using eq card by auto
next
  assume r: "(\<forall>x \<in> set xs. 1 \<le> x \<and> x \<le> 9) \<and> distinct xs \<and> card (set xs) = 9"
  then have sub: "set xs \<subseteq> {1..9}" by auto
  have "card (set xs) = card {1..9::int}" using r by simp
  then have eq: "set xs = {1..9}" using sub
    by (metis card_subset_eq finite_atLeastAtMost_int)
  have "distinct xs" using r by simp
  then have "\<forall>d \<in> set xs. count_list xs d = 1"
    by (simp add: count_list_1_distinct)
  then show "each_digit_once xs"
    unfolding each_digit_once_def eq .
qed

lemma hasAllDigits_each_digit_once:
  "length xs = 9 \<Longrightarrow> hasAllDigits (map Num xs) = each_digit_once xs"
  by (simp add: hasAllDigits_ints each_digit_once_iff)

lemma isValid_rows_spec:
  assumes "grid9 g" "\<forall>i \<in> set is. i < 9"
  shows "isValid_rows g is = Inr (report (List.map_filter (spec_row_violation g) is))"
  using assms(2)
proof (induction "is")
  case Nil
  then show ?case by (simp add: List.map_filter_simps)
next
  case (Cons i "is")
  then have i: "i < 9" by simp
  have len: "length (g ! i) = 9" using assms(1) i by (simp add: grid9_def list_all_length)
  have lg: "i < length g" using assms(1) i by (simp add: grid9_def)
  show ?case using Cons
    by (simp add: lg hasAllDigits_each_digit_once [OF len] spec_row_violation_def
                  List.map_filter_simps)
qed

lemma getColumn_loop_grid9:
  assumes "grid9 g" "j < 9" "\<forall>i \<in> set is. i < 9"
  shows "getColumn_loop g j is acc = Inr (acc @ map (\<lambda>i. Num (g ! i ! j)) is)"
  using assms(3)
proof (induction "is" arbitrary: acc)
  case Nil
  then show ?case by simp
next
  case (Cons i "is")
  then have i: "i < 9" by simp
  have c: "cell g i j = Inr (Num (g ! i ! j))" using assms(1) i assms(2) by (rule cell_grid9)
  show ?case using Cons by (simp add: c)
qed

lemma getColumn_grid9:
  assumes "grid9 g" "j < 9"
  shows "getColumn g j = Inr (map Num (map (\<lambda>i. g ! i ! j) [0..<9]))"
  unfolding getColumn_def
  using getColumn_loop_grid9 [OF assms, of "[0..<9]" "[]"] by (simp add: comp_def)

lemma isValid_columns_spec:
  assumes "grid9 g" "\<forall>j \<in> set js. j < 9"
  shows "isValid_columns g js = Inr (report (List.map_filter (spec_column_violation g) js))"
  using assms(2)
proof (induction js)
  case Nil
  then show ?case by (simp add: List.map_filter_simps)
next
  case (Cons j js)
  then have j: "j < 9" by simp
  have len: "length (map (\<lambda>i. g ! i ! j) [0..<9]) = 9" by simp
  show ?case using Cons
    by (simp add: getColumn_grid9 [OF assms(1) j] hasAllDigits_each_digit_once [OF len]
                  spec_column_violation_def List.map_filter_simps del: map_map)
qed

lemma getBox_inner_grid9:
  assumes "grid9 g" "br + i < 9" "\<forall>j \<in> set js. bc + j < 9"
  shows "getBox_inner g br bc i js acc = Inr (acc @ map (\<lambda>j. Num (g ! (br + i) ! (bc + j))) js)"
  using assms(3)
proof (induction js arbitrary: acc)
  case Nil
  then show ?case by simp
next
  case (Cons j js)
  then have j: "bc + j < 9" by simp
  have c: "cell g (br + i) (bc + j) = Inr (Num (g ! (br + i) ! (bc + j)))"
    using assms(1,2) j by (rule cell_grid9)
  show ?case using Cons by (simp add: c)
qed

lemma getBox_outer_grid9:
  assumes "grid9 g" "bc + 2 < 9" "\<forall>i \<in> set is. br + i < 9"
  shows "getBox_outer g br bc is acc
           = Inr (acc @ map (\<lambda>(i, j). Num (g ! (br + i) ! (bc + j))) (List.product is [0..<3]))"
  using assms(3)
proof (induction "is" arbitrary: acc)
  case Nil
  then show ?case by simp
next
  case (Cons i "is")
  then have i: "br + i < 9" by simp
  have js: "\<forall>j \<in> set [0..<3]. bc + j < 9" using assms(2) by auto
  show ?case using Cons
    by (simp add: getBox_inner_grid9 [OF assms(1) i js] comp_def)
qed

lemma getBox_grid9:
  assumes "grid9 g" "b < 9"
  shows "getBox g b = Inr (map Num (spec_box_cells g b))"
proof -
  have bc: "(b mod 3) * 3 + 2 < 9" by presburger
  have "b div 3 < 3" using assms(2) by simp
  then have br: "\<forall>i \<in> set [0..<3]. (b div 3) * 3 + i < 9" by auto
  show ?thesis
    unfolding getBox_def Let_def spec_box_cells_def
    using getBox_outer_grid9 [OF assms(1) bc br, of "[]"]
    by (simp add: comp_def case_prod_unfold)
qed

lemma length_spec_box_cells: "length (spec_box_cells g b) = 9"
  by (simp add: spec_box_cells_def)

lemma isValid_boxes_spec:
  assumes "grid9 g" "\<forall>b \<in> set bs. b < 9"
  shows "isValid_boxes g bs = Inr (report (List.map_filter (spec_box_violation g) bs))"
  using assms(2)
proof (induction bs)
  case Nil
  then show ?case by (simp add: List.map_filter_simps)
next
  case (Cons b bs)
  then have b: "b < 9" by simp
  show ?case using Cons
    by (simp add: getBox_grid9 [OF assms(1) b]
                  hasAllDigits_each_digit_once [OF length_spec_box_cells]
                  spec_box_violation_def List.map_filter_simps)
qed

text \<open>
  Claim C2. For every 9 by 9 grid, \<open>isValid\<close> returns the first violation in the fixed
  scan order: the cells row-major (empty, or outside 1..9), then the rows 0..8, the
  columns 0..8 and the boxes 0..8 (each required to contain 1..9 exactly once), box
  \<open>b\<close> starting at \<open>(\<lfloor>b/3\<rfloor>\<cdot>3, (b mod 3)\<cdot>3)\<close>; the result is valid, with no violation,
  exactly when that list of violations is empty. \<open>spec_isValid\<close> is the result
  worded that way: the head of \<open>spec_violations\<close>, or valid when there is none.
\<close>

theorem isValid_first_violation_in_scan_order:
  assumes "grid9 g"
  shows "isValid g = Inr (spec_isValid g)"
proof -
  have all9: "\<forall>i \<in> set [0..<9]. i < 9" by simp
  have r: "spec_isValid g = (case report (spec_violations g) of
             None \<Rightarrow> \<lparr>valid = True, error = None\<rparr> | Some r \<Rightarrow> r)"
    by (simp add: spec_isValid_def report_def split: list.splits)
  show ?thesis
    unfolding isValid_def r spec_violations_def
    by (simp add: isValid_cells_spec [OF assms all9] isValid_rows_spec [OF assms all9]
                  isValid_columns_spec [OF assms all9] isValid_boxes_spec [OF assms all9]
                  report_append
             split: option.splits)
qed

text \<open>The solved grid with its last cell changed to 7 breaks row 9, column 9 and the
  last box at once; the row is reported, being first in the order.\<close>

theorem isValid_first_violation_in_scan_order_witness:
  "grid9 (set_cell solved_grid 8 8 7)
   \<and> isValid (set_cell solved_grid 8 8 7)
        = Inr \<lparr>valid = False, error = Some ''Row 9 contains duplicate values''\<rparr>
   \<and> spec_violations (set_cell solved_grid 8 8 7)
        = [''Row 9 contains duplicate values'', ''Column 9 contains duplicate values'',
           ''Box at position (3, 3) contains duplicate values'']"
proof -
  have g: "grid9 (set_cell solved_grid 8 8 7)"
    using grid9_solved by (rule grid9_set_cell)
  have v: "spec_violations (set_cell solved_grid 8 8 7)
        = [''Row 9 contains duplicate values'', ''Column 9 contains duplicate values'',
           ''Box at position (3, 3) contains duplicate values'']"
    by code_simp
  from isValid_first_violation_in_scan_order [OF g] g v show ?thesis
    by (simp add: spec_isValid_def)
qed

section \<open>matchesChallenge\<close>

lemma matchesChallenge_inner_grid9:
  assumes "grid9 s" "grid9 c" "i < 9" "\<forall>j \<in> set js. j < 9"
  shows "matchesChallenge_inner s c i js = Inr (\<forall>j \<in> set js. c ! i ! j \<noteq> 0 \<longrightarrow> s ! i ! j = c ! i ! j)"
  using assms(4)
proof (induction js)
  case Nil
  then show ?case by simp
next
  case (Cons j js)
  then have j: "j < 9" by simp
  have cc: "cell c i j = Inr (Num (c ! i ! j))" using assms(2,3) j by (rule cell_grid9)
  have cs: "cell s i j = Inr (Num (s ! i ! j))" using assms(1,3) j by (rule cell_grid9)
  show ?case using Cons by (auto simp: cc cs)
qed

lemma matchesChallenge_outer_grid9:
  assumes "grid9 s" "grid9 c" "\<forall>i \<in> set is. i < 9"
  shows "matchesChallenge_outer s c is
           = Inr (\<forall>i \<in> set is. \<forall>j < 9. c ! i ! j \<noteq> 0 \<longrightarrow> s ! i ! j = c ! i ! j)"
  using assms(3)
proof (induction "is")
  case Nil
  then show ?case by simp
next
  case (Cons i "is")
  then have i: "i < 9" by simp
  have js: "\<forall>j \<in> set [0..<9]. j < 9" by simp
  show ?case using Cons
    by (auto simp: matchesChallenge_inner_grid9 [OF assms(1,2) i js])
qed

lemma matchesChallenge_grid9:
  assumes "grid9 s" "grid9 c"
  shows "matchesChallenge s c = Inr (\<forall>i < 9. \<forall>j < 9. c ! i ! j \<noteq> 0 \<longrightarrow> s ! i ! j = c ! i ! j)"
  unfolding matchesChallenge_def
  using matchesChallenge_outer_grid9 [OF assms, of "[0..<9]"] by (simp add: Ball_def)

text \<open>
  Claim C7. For 9 by 9 grids, \<open>matchesChallenge candidate challenge\<close> is true exactly
  when every cell where the challenge is non-zero holds the same value in the
  candidate. Hence a candidate that matches stops matching when one non-zero challenge
  cell of it is changed to a different digit, and a cell where the challenge is zero
  can be changed freely without changing the answer.
\<close>

theorem matchesChallenge_fixed_clues:
  assumes "grid9 candidate" "grid9 challenge"
  shows "matchesChallenge candidate challenge
           = Inr (\<forall>i < 9. \<forall>j < 9. challenge ! i ! j \<noteq> 0 \<longrightarrow> candidate ! i ! j = challenge ! i ! j)
       \<and> (\<forall>i < 9. \<forall>j < 9. \<forall>d.
             matchesChallenge candidate challenge = Inr True \<and> challenge ! i ! j \<noteq> 0
               \<and> d \<noteq> candidate ! i ! j
             \<longrightarrow> matchesChallenge (set_cell candidate i j d) challenge = Inr False)
       \<and> (\<forall>i < 9. \<forall>j < 9. \<forall>d.
             challenge ! i ! j = 0
             \<longrightarrow> matchesChallenge (set_cell candidate i j d) challenge
                   = matchesChallenge candidate challenge)"
proof (intro conjI allI impI)
  show "matchesChallenge candidate challenge
           = Inr (\<forall>i < 9. \<forall>j < 9. challenge ! i ! j \<noteq> 0 \<longrightarrow> candidate ! i ! j = challenge ! i ! j)"
    using assms by (rule matchesChallenge_grid9)
next
  fix i j d
  assume i: "i < 9" and j: "j < 9"
    and h: "matchesChallenge candidate challenge = Inr True \<and> challenge ! i ! j \<noteq> 0
               \<and> d \<noteq> candidate ! i ! j"
  from h have "candidate ! i ! j = challenge ! i ! j"
    using i j by (simp add: matchesChallenge_grid9 [OF assms])
  with h have "set_cell candidate i j d ! i ! j \<noteq> challenge ! i ! j"
    using i j assms(1) by (simp add: nth_set_cell)
  with h i j show "matchesChallenge (set_cell candidate i j d) challenge = Inr False"
    by (auto simp: matchesChallenge_grid9 [OF grid9_set_cell [OF assms(1)] assms(2)])
next
  fix i j d
  assume i: "i < 9" and j: "j < 9" and z: "challenge ! i ! j = 0"
  show "matchesChallenge (set_cell candidate i j d) challenge
          = matchesChallenge candidate challenge"
    unfolding matchesChallenge_grid9 [OF grid9_set_cell [OF assms(1)] assms(2)]
              matchesChallenge_grid9 [OF assms]
    using i j z assms(1) by (auto simp: nth_set_cell)
qed

text \<open>The solution of the challenge puzzle is valid and matches the challenge; with the
  clue 5 at \<open>(0,0)\<close> changed to 4 it no longer does; the challenge is empty at \<open>(0,2)\<close>,
  and a 9 there leaves the answer as it was.\<close>

theorem matchesChallenge_fixed_clues_witness:
  "grid9 solved_grid \<and> grid9 CHALLENGE_PUZZLES_default
   \<and> isValid solved_grid = Inr \<lparr>valid = True, error = None\<rparr>
   \<and> matchesChallenge solved_grid CHALLENGE_PUZZLES_default = Inr True
   \<and> matchesChallenge (set_cell solved_grid 0 0 4) CHALLENGE_PUZZLES_default = Inr False
   \<and> matchesChallenge (set_cell solved_grid 0 2 9) CHALLENGE_PUZZLES_default = Inr True"
proof -
  note fc = matchesChallenge_fixed_clues [OF grid9_solved grid9_default]
  have valid: "isValid solved_grid = Inr \<lparr>valid = True, error = None\<rparr>" by code_simp
  have m: "matchesChallenge solved_grid CHALLENGE_PUZZLES_default = Inr True" by code_simp
  have clue: "CHALLENGE_PUZZLES_default ! 0 ! 0 \<noteq> 0 \<and> (4::int) \<noteq> solved_grid ! 0 ! 0"
    by (simp add: CHALLENGE_PUZZLES_default_def solved_grid_def)
  have free: "CHALLENGE_PUZZLES_default ! 0 ! 2 = 0"
    by (simp add: CHALLENGE_PUZZLES_default_def)
  note flip = fc [THEN conjunct2, THEN conjunct1, rule_format, of 0 0 4]
  note unconstrained = fc [THEN conjunct2, THEN conjunct2, rule_format, of 0 2 9]
  from flip m clue have f: "matchesChallenge (set_cell solved_grid 0 0 4) CHALLENGE_PUZZLES_default
      = Inr False"
    by simp
  from unconstrained m free have k:
    "matchesChallenge (set_cell solved_grid 0 2 9) CHALLENGE_PUZZLES_default = Inr True"
    by simp
  from grid9_solved grid9_default valid m f k show ?thesis by simp
qed

section \<open>getConflicts\<close>

lemma row_loop_iff:
  "getConflicts_row_loop g row col v js = Inr b \<Longrightarrow>
     b = (\<exists>j \<in> set js. j \<noteq> col \<and> cell g row j = Inr (Num v))"
  by (induction js) (auto split: if_splits sum.splits)

lemma column_loop_iff:
  "getConflicts_column_loop g row col v is = Inr b \<Longrightarrow>
     b = (\<exists>i \<in> set is. i \<noteq> row \<and> cell g i col = Inr (Num v))"
  by (induction "is") (auto split: if_splits sum.splits)

lemma box_inner_iff:
  "getConflicts_box_inner g row col v i js = Inr b \<Longrightarrow>
     b = (\<exists>j \<in> set js. i \<noteq> row \<and> j \<noteq> col \<and> cell g i j = Inr (Num v))"
  by (induction js) (auto split: if_splits sum.splits)

lemma box_outer_iff:
  "getConflicts_box_outer g row col v js is = Inr b \<Longrightarrow>
     b = (\<exists>i \<in> set is. \<exists>j \<in> set js. i \<noteq> row \<and> j \<noteq> col \<and> cell g i j = Inr (Num v))"
proof (induction "is")
  case Nil
  then show ?case by simp
next
  case (Cons i "is")
  then show ?case
    by (auto split: sum.splits if_splits dest!: box_inner_iff)
qed

lemma getConflicts_shape:
  assumes "getConflicts g row col v = Inr cs"
  obtains r c b where
    "cs = (if r then [\<lparr>type = Row, position = row\<rparr>] else [])
        @ (if c then [\<lparr>type = Column, position = col\<rparr>] else [])
        @ (if b then [\<lparr>type = Box, position = (row div 3) * 3 + col div 3\<rparr>] else [])"
    "r = (\<exists>j < 9. j \<noteq> col \<and> cell g row j = Inr (Num v))"
    "c = (\<exists>i < 9. i \<noteq> row \<and> cell g i col = Inr (Num v))"
    "b = (\<exists>i j. in_box_of row col i j \<and> i \<noteq> row \<and> j \<noteq> col \<and> cell g i j = Inr (Num v))"
proof -
  from assms obtain r c b where
    r: "getConflicts_row_loop g row col v [0..<9] = Inr r" and
    c: "getConflicts_column_loop g row col v [0..<9] = Inr c" and
    b: "getConflicts_box_outer g row col v [(col div 3) * 3..<(col div 3) * 3 + 3]
          [(row div 3) * 3..<(row div 3) * 3 + 3] = Inr b" and
    cs: "cs = (if r then [\<lparr>type = Row, position = row\<rparr>] else [])
            @ (if c then [\<lparr>type = Column, position = col\<rparr>] else [])
            @ (if b then [\<lparr>type = Box, position = (row div 3) * 3 + col div 3\<rparr>] else [])"
    unfolding getConflicts_def Let_def
    by (auto split: sum.splits if_splits)
  have r': "r = (\<exists>j < 9. j \<noteq> col \<and> cell g row j = Inr (Num v))"
    unfolding row_loop_iff [OF r] by (simp add: Bex_def)
  have c': "c = (\<exists>i < 9. i \<noteq> row \<and> cell g i col = Inr (Num v))"
    unfolding column_loop_iff [OF c] by (simp add: Bex_def)
  have b': "b = (\<exists>i j. in_box_of row col i j \<and> i \<noteq> row \<and> j \<noteq> col
                    \<and> cell g i j = Inr (Num v))"
    unfolding box_outer_iff [OF b] in_box_of_def by (simp add: Bex_def) blast
  from cs r' c' b' show thesis by (rule that)
qed

lemma getConflicts_row_loop_returns:
  assumes "grid9 g" "row < 9" "\<forall>j \<in> set js. j < 9"
  shows "\<exists>b. getConflicts_row_loop g row col v js = Inr b"
  using assms(3) by (induction js) (auto simp: cell_grid9 [OF assms(1,2)])

lemma getConflicts_column_loop_returns:
  assumes "grid9 g" "col < 9" "\<forall>i \<in> set is. i < 9"
  shows "\<exists>b. getConflicts_column_loop g row col v is = Inr b"
  using assms(3) by (induction "is") (auto simp: cell_grid9 [OF assms(1) _ assms(2)])

lemma getConflicts_box_inner_returns:
  assumes "grid9 g" "i < 9" "\<forall>j \<in> set js. j < 9"
  shows "\<exists>b. getConflicts_box_inner g row col v i js = Inr b"
  using assms(3) by (induction js) (auto simp: cell_grid9 [OF assms(1,2)])

lemma getConflicts_box_outer_returns:
  assumes "grid9 g" "\<forall>j \<in> set js. j < 9" "\<forall>i \<in> set is. i < 9"
  shows "\<exists>b. getConflicts_box_outer g row col v js is = Inr b"
  using assms(3)
proof (induction "is")
  case Nil
  then show ?case by auto
next
  case (Cons i "is")
  then have "i < 9" by simp
  from getConflicts_box_inner_returns [OF assms(1) this assms(2)]
  obtain b where "getConflicts_box_inner g row col v i js = Inr b" by blast
  with Cons show ?case by auto
qed

lemma getConflicts_returns:
  assumes "grid9 g" "row < 9" "col < 9"
  shows "\<exists>cs. getConflicts g row col v = Inr cs"
proof -
  have all9: "\<forall>i \<in> set [0..<9]. i < 9" by simp
  have "row div 3 < 3" "col div 3 < 3" using assms(2,3) by simp_all
  then have rows: "\<forall>i \<in> set [(row div 3) * 3..<(row div 3) * 3 + 3]. i < 9"
    and cols: "\<forall>j \<in> set [(col div 3) * 3..<(col div 3) * 3 + 3]. j < 9"
    by auto
  obtain r where r: "getConflicts_row_loop g row col v [0..<9] = Inr r"
    using getConflicts_row_loop_returns [OF assms(1,2) all9] by blast
  obtain c where c: "getConflicts_column_loop g row col v [0..<9] = Inr c"
    using getConflicts_column_loop_returns [OF assms(1,3) all9] by blast
  obtain b where b: "getConflicts_box_outer g row col v
      [(col div 3) * 3..<(col div 3) * 3 + 3] [(row div 3) * 3..<(row div 3) * 3 + 3] = Inr b"
    using getConflicts_box_outer_returns [OF assms(1) cols rows] by blast
  show ?thesis
    unfolding getConflicts_def Let_def by (simp add: r c b)
qed

text \<open>
  Claim C10. On a 9 by 9 grid and a position inside it \<open>getConflicts\<close> returns, and
  whenever \<open>getConflicts grid row col v\<close> returns, it reports a box conflict exactly
  when some cell of the box of \<open>(row, col)\<close> holds \<open>v\<close> at a position whose row
  index differs from \<open>row\<close> and whose column index differs from \<open>col\<close>. So when every
  occurrence of \<open>v\<close> in the box shares the target's row or column, no box conflict is
  reported; such an occurrence at another cell of the row (or column) is reported as
  the row (or column) conflict.
\<close>

theorem getConflicts_box_off_row_and_column:
  "(grid9 g \<and> row < 9 \<and> col < 9 \<longrightarrow> (\<exists>cs. getConflicts g row col v = Inr cs))
   \<and> (\<forall>cs. getConflicts g row col v = Inr cs \<longrightarrow>
        ((\<exists>c \<in> set cs. type c = Box) \<longleftrightarrow>
            (\<exists>i j. in_box_of row col i j \<and> i \<noteq> row \<and> j \<noteq> col \<and> cell g i j = Inr (Num v)))
      \<and> ((\<forall>i j. in_box_of row col i j \<and> cell g i j = Inr (Num v) \<longrightarrow> i = row \<or> j = col)
            \<longrightarrow> (\<forall>c \<in> set cs. type c \<noteq> Box))
      \<and> (\<forall>j < 9. j \<noteq> col \<and> cell g row j = Inr (Num v)
            \<longrightarrow> \<lparr>type = Row, position = row\<rparr> \<in> set cs)
      \<and> (\<forall>i < 9. i \<noteq> row \<and> cell g i col = Inr (Num v)
            \<longrightarrow> \<lparr>type = Column, position = col\<rparr> \<in> set cs))"
proof (rule conjI)
  show "grid9 g \<and> row < 9 \<and> col < 9 \<longrightarrow> (\<exists>cs. getConflicts g row col v = Inr cs)"
    by (simp add: getConflicts_returns)
next
  show "\<forall>cs. getConflicts g row col v = Inr cs \<longrightarrow>
        ((\<exists>c \<in> set cs. type c = Box) \<longleftrightarrow>
            (\<exists>i j. in_box_of row col i j \<and> i \<noteq> row \<and> j \<noteq> col \<and> cell g i j = Inr (Num v)))
      \<and> ((\<forall>i j. in_box_of row col i j \<and> cell g i j = Inr (Num v) \<longrightarrow> i = row \<or> j = col)
            \<longrightarrow> (\<forall>c \<in> set cs. type c \<noteq> Box))
      \<and> (\<forall>j < 9. j \<noteq> col \<and> cell g row j = Inr (Num v)
            \<longrightarrow> \<lparr>type = Row, position = row\<rparr> \<in> set cs)
      \<and> (\<forall>i < 9. i \<noteq> row \<and> cell g i col = Inr (Num v)
            \<longrightarrow> \<lparr>type = Column, position = col\<rparr> \<in> set cs)"
  proof (rule allI, rule impI)
    fix cs
    assume run: "getConflicts g row col v = Inr cs"
    from run obtain r c b where
      cs: "cs = (if r then [\<lparr>type = Row, position = row\<rparr>] else [])
          @ (if c then [\<lparr>type = Column, position = col\<rparr>] else [])
          @ (if b then [\<lparr>type = Box, position = (row div 3) * 3 + col div 3\<rparr>] else [])" and
      r: "r = (\<exists>j < 9. j \<noteq> col \<and> cell g row j = Inr (Num v))" and
      c: "c = (\<exists>i < 9. i \<noteq> row \<and> cell g i col = Inr (Num v))" and
      b: "b = (\<exists>i j. in_box_of row col i j \<and> i \<noteq> row \<and> j \<noteq> col \<and> cell g i j = Inr (Num v))"
      by (rule getConflicts_shape)
    have box: "(\<exists>c \<in> set cs. type c = Box) = b"
      by (cases r; cases c; cases b) (simp_all add: cs)
    have row: "(\<lparr>type = Row, position = row\<rparr> \<in> set cs) = r"
      by (cases r; cases c; cases b) (simp_all add: cs)
    have col: "(\<lparr>type = Column, position = col\<rparr> \<in> set cs) = c"
      by (cases r; cases c; cases b) (simp_all add: cs)
    have nobox: "(\<forall>c \<in> set cs. type c \<noteq> Box) = (\<not> b)" using box by blast
    show "((\<exists>c \<in> set cs. type c = Box) \<longleftrightarrow>
              (\<exists>i j. in_box_of row col i j \<and> i \<noteq> row \<and> j \<noteq> col \<and> cell g i j = Inr (Num v)))
        \<and> ((\<forall>i j. in_box_of row col i j \<and> cell g i j = Inr (Num v) \<longrightarrow> i = row \<or> j = col)
              \<longrightarrow> (\<forall>c \<in> set cs. type c \<noteq> Box))
        \<and> (\<forall>j < 9. j \<noteq> col \<and> cell g row j = Inr (Num v)
              \<longrightarrow> \<lparr>type = Row, position = row\<rparr> \<in> set cs)
        \<and> (\<forall>i < 9. i \<noteq> row \<and> cell g i col = Inr (Num v)
              \<longrightarrow> \<lparr>type = Column, position = col\<rparr> \<in> set cs)"
      unfolding box nobox row col unfolding r c b by blast
  qed
qed

text \<open>In the challenge puzzle the 9 at \<open>(2,1)\<close> lies in the box of \<open>(0,2)\<close>, off its row
  and its column: the box conflict, and nothing else, is reported for the value 9.\<close>

theorem getConflicts_box_off_row_and_column_witness:
  "grid9 CHALLENGE_PUZZLES_default
   \<and> getConflicts CHALLENGE_PUZZLES_default 0 2 9 = Inr [\<lparr>type = Box, position = 0\<rparr>]
   \<and> (\<exists>i j. in_box_of 0 2 i j \<and> i \<noteq> 0 \<and> j \<noteq> 2
          \<and> cell CHALLENGE_PUZZLES_default i j = Inr (Num 9))"
proof -
  have run: "getConflicts CHALLENGE_PUZZLES_default 0 2 9 = Inr [\<lparr>type = Box, position = 0\<rparr>]"
    by code_simp
  note box = getConflicts_box_off_row_and_column [of CHALLENGE_PUZZLES_default 0 2 9,
      THEN conjunct2, rule_format, OF run, THEN conjunct1]
  from box have "\<exists>i j. in_box_of 0 2 i j \<and> i \<noteq> 0 \<and> j \<noteq> 2
          \<and> cell CHALLENGE_PUZZLES_default i j = Inr (Num 9)"
    by simp
  with grid9_default run show ?thesis by simp
qed

text \<open>
  Claim C8. \<open>getConflicts\<close> on the official challenge puzzle at the empty cell \<open>(0,2)\<close>
  with the value 5 returns exactly one conflict, the row conflict of row 0 (the 5 at
  column 0), and neither a column nor a box conflict.
\<close>

theorem getConflicts_challenge_0_2_value_5:
  "getConflicts CHALLENGE_PUZZLES_default 0 2 5 = Inr [\<lparr>type = Row, position = 0\<rparr>]
   \<and> cell CHALLENGE_PUZZLES_default 0 2 = Inr (Num 0)
   \<and> cell CHALLENGE_PUZZLES_default 0 0 = Inr (Num 5)"
  by code_simp

section \<open>The field element sampler\<close>

lemma shift_or_byte: "push_bit 8 (x::int) OR uint (b::byte) = x * 256 + uint b"
proof -
  have "concat_bit 8 (uint b) x = take_bit 8 (uint b) + push_bit 8 x"
    by (rule concat_bit_eq)
  moreover have "concat_bit 8 (uint b) x = take_bit 8 (uint b) OR push_bit 8 x"
    by (rule concat_bit_def)
  moreover have "take_bit 8 (uint b) = uint b"
    by (simp add: take_bit_eq_mod uint_bounded [where 'a=8, simplified])
  ultimately show ?thesis
    by (simp add: push_bit_eq_mult or.commute)
qed

lemma bytes_to_bigint_split:
  "bytes_to_bigint x bs = x * 256 ^ length bs + bytes_to_bigint 0 bs"
proof (induction bs arbitrary: x)
  case Nil
  then show ?case by simp
next
  case (Cons b bs)
  have "bytes_to_bigint x (b # bs) = bytes_to_bigint (x * 256 + uint b) bs"
    by (simp add: shift_or_byte)
  also have "\<dots> = (x * 256 + uint b) * 256 ^ length bs + bytes_to_bigint 0 bs"
    by (rule Cons.IH)
  also have "bytes_to_bigint 0 (b # bs) = uint b * 256 ^ length bs + bytes_to_bigint 0 bs"
    using Cons.IH [of "uint b"] by (simp add: shift_or_byte)
  ultimately show ?case by (simp add: algebra_simps)
qed

lemma bytes_to_bigint_bounds:
  "0 \<le> bytes_to_bigint 0 bs \<and> bytes_to_bigint 0 bs < 256 ^ length bs"
proof (induction bs)
  case Nil
  then show ?case by simp
next
  case (Cons b bs)
  define P :: int where "P = 256 ^ length bs"
  define r where "r = bytes_to_bigint 0 bs"
  have eq: "bytes_to_bigint 0 (b # bs) = uint b * P + r"
    using bytes_to_bigint_split [of "uint b" bs] by (simp add: shift_or_byte P_def r_def)
  have b: "0 \<le> uint b" "uint b \<le> 255"
    using uint_bounded [of b] by simp_all
  have P: "0 \<le> P" by (simp add: P_def)
  have up: "uint b * P \<le> 255 * P"
    using b P by (intro mult_right_mono) simp_all
  have lo: "0 \<le> uint b * P" using b P by simp
  have r: "0 \<le> r" "r < P" using Cons by (simp_all add: P_def r_def)
  have "0 \<le> uint b * P + r" using lo r by linarith
  moreover have "uint b * P + r < 256 * P" using up r by linarith
  ultimately show ?case
    unfolding eq by (simp add: P_def)
qed

lemma mask_3f_le: "uint ((b::byte) AND 0x3f) \<le> 63"
proof -
  have "(b AND 0x3f) \<le> 0x3f" by (rule word_and_le1)
  then show ?thesis by (simp add: word_le_def)
qed

lemma candidate_bounds: "0 \<le> draw_candidate src pos \<and> draw_candidate src pos < 2 ^ 254"
proof -
  define b0 where "b0 = src pos AND 0x3f"
  define rest where "rest = map src [Suc pos..<pos + 32]"
  have up: "[pos..<pos + 32] = pos # [Suc pos..<pos + 32]"
    by (simp add: upt_conv_Cons)
  have c: "draw_candidate src pos = bytes_to_bigint 0 (b0 # rest)"
    unfolding draw_candidate_def getRandomValues_def Let_def b0_def rest_def up by simp
  have len: "length rest = 31" by (simp add: rest_def)
  have eq: "draw_candidate src pos = uint b0 * 256 ^ 31 + bytes_to_bigint 0 rest"
    unfolding c using bytes_to_bigint_split [of "uint b0" rest] len
    by (simp add: shift_or_byte)
  have r: "0 \<le> bytes_to_bigint 0 rest" "bytes_to_bigint 0 rest < 256 ^ 31"
    using bytes_to_bigint_bounds [of rest] len by simp_all
  have b: "0 \<le> uint b0" "uint b0 \<le> 63"
    using mask_3f_le [of "src pos"] by (simp_all add: b0_def)
  have "uint b0 * 256 ^ 31 \<le> 63 * 256 ^ 31"
    using b by (intro mult_right_mono) simp_all
  then show ?thesis
    unfolding eq using r b by simp
qed

lemma accepted_at_now:
  assumes "draw_candidate src pos < MODULUS"
  shows "accepted_at src pos (draw_candidate src pos, pos + 32)"
proof -
  have "snd (draw_candidate src pos, pos + 32) = pos + 32 * (0 + 1)
      \<and> fst (draw_candidate src pos, pos + 32) = draw_candidate src (pos + 32 * 0)
      \<and> fst (draw_candidate src pos, pos + 32) < MODULUS
      \<and> (\<forall>k' < (0::nat). MODULUS \<le> draw_candidate src (pos + 32 * k'))"
    using assms by simp
  then show ?thesis unfolding accepted_at_def by (rule exI)
qed

lemma accepted_at_later:
  assumes rej: "\<not> draw_candidate src pos < MODULUS" and later: "accepted_at src (pos + 32) y"
  shows "accepted_at src pos y"
proof -
  from later obtain k where
    k: "snd y = pos + 32 + 32 * (k + 1)" "fst y = draw_candidate src (pos + 32 + 32 * k)"
       "fst y < MODULUS"
       "\<forall>k' < k. MODULUS \<le> draw_candidate src (pos + 32 + 32 * k')"
    unfolding accepted_at_def by blast
  have all: "\<forall>k' < Suc k. MODULUS \<le> draw_candidate src (pos + 32 * k')"
  proof (intro allI impI)
    fix k' assume lt: "k' < Suc k"
    show "MODULUS \<le> draw_candidate src (pos + 32 * k')"
    proof (cases k')
      case 0
      with rej show ?thesis by simp
    next
      case (Suc m)
      with lt have "m < k" by simp
      with k(4) have "MODULUS \<le> draw_candidate src (pos + 32 + 32 * m)" by blast
      then show ?thesis using Suc by (simp add: algebra_simps)
    qed
  qed
  have "snd y = pos + 32 * (Suc k + 1) \<and> fst y = draw_candidate src (pos + 32 * Suc k)
         \<and> fst y < MODULUS \<and> (\<forall>k' < Suc k. MODULUS \<le> draw_candidate src (pos + 32 * k'))"
    using k(1,2,3) all by (simp add: algebra_simps)
  then show ?thesis unfolding accepted_at_def by (rule exI)
qed

lemma loop_sound_aux:
  assumes "generateFieldElement_loop src pos = Some y"
  shows "accepted_at src pos y"
proof (rule generateFieldElement_loop.raw_induct [where P = accepted_at, OF _ assms])
  fix loop :: "entropy \<Rightarrow> nat \<Rightarrow> (int \<times> nat) option" and src pos y
  assume ih: "\<And>src pos y. loop src pos = Some y \<Longrightarrow> accepted_at src pos y"
    and step: "(if draw_candidate src pos < MODULUS then Some (draw_candidate src pos, pos + 32)
                else loop src (pos + 32)) = Some y"
  show "accepted_at src pos y"
  proof (cases "draw_candidate src pos < MODULUS")
    case True
    with step have "y = (draw_candidate src pos, pos + 32)" by simp
    with True show ?thesis by (simp add: accepted_at_now)
  next
    case False
    with step have "loop src (pos + 32) = Some y" by simp
    then have "accepted_at src (pos + 32) y" by (rule ih)
    with False show ?thesis by (rule accepted_at_later)
  qed
qed

lemma loop_sound:
  "generateFieldElement_loop src pos = Some (x, pos') \<Longrightarrow>
     \<exists>k. pos' = pos + 32 * (k + 1) \<and> x = draw_candidate src (pos + 32 * k) \<and> x < MODULUS
         \<and> (\<forall>k' < k. MODULUS \<le> draw_candidate src (pos + 32 * k'))"
  using loop_sound_aux [of src pos "(x, pos')"] by (simp add: accepted_at_def)

lemma loop_returns:
  "draw_candidate src (pos + 32 * k) < MODULUS \<Longrightarrow> generateFieldElement_loop src pos \<noteq> None"
proof (induction k arbitrary: pos)
  case 0
  then show ?case by (subst generateFieldElement_loop.simps) simp
next
  case (Suc k)
  have "draw_candidate src (pos + 32 + 32 * k) < MODULUS" using Suc.prems by (simp add: algebra_simps)
  then have "generateFieldElement_loop src (pos + 32) \<noteq> None" by (rule Suc.IH)
  then show ?case by (subst generateFieldElement_loop.simps) simp
qed

lemma digit_value_digit_char: "d < 10 \<Longrightarrow> digit_value (digit_char d) = d"
proof -
  have "\<forall>d \<in> {0..<10}. digit_value (digit_char d) = d" by code_simp
  then show "d < 10 \<Longrightarrow> digit_value (digit_char d) = d" by simp
qed

lemma decimal_fold_toString:
  "foldl (\<lambda>n c. 10 * n + digit_value c) 0 (toStringRadix 10 n) = n"
proof (induction "10::nat" n rule: toStringRadix.induct)
  case (1 n)
  show ?case
  proof (cases "n < 10")
    case True
    then show ?thesis
      by (subst toStringRadix.simps) (simp add: digit_value_digit_char)
  next
    case False
    then have ih: "foldl (\<lambda>n c. 10 * n + digit_value c) 0 (toStringRadix 10 (n div 10)) = n div 10"
      using 1 by simp
    show ?thesis
      using False by (subst toStringRadix.simps) (simp add: ih digit_value_digit_char)
  qed
qed

lemma decimal_value_bigint_toString: "0 \<le> x \<Longrightarrow> decimal_value (bigint_toString x) = x"
  by (simp add: decimal_value_def bigint_toString_def toString_def decimal_fold_toString)

text \<open>
  Claim C1. Every value \<open>generateFieldElement\<close> returns, read as a non-negative
  integer, satisfies \<open>0 \<le> x < p\<close> for the modulus \<open>p\<close>: it is the candidate of the first
  draw that is below \<open>p\<close>, all earlier draws having been rejected for being at least
  \<open>p\<close>. Each candidate is 32 fresh bytes read big-endian after the top two bits of the
  first byte are cleared, so it is below \<open>2^254\<close>. And the sampler does return as soon
  as some draw is below \<open>p\<close>.
\<close>

theorem generateFieldElement_below_modulus:
  "(generateFieldElement src pos = Some (s, pos') \<longrightarrow>
      (\<exists>k. pos' = pos + 32 * (k + 1)
          \<and> s = bigint_toString (draw_candidate src (pos + 32 * k))
          \<and> decimal_value s = draw_candidate src (pos + 32 * k)
          \<and> 0 \<le> decimal_value s \<and> decimal_value s < MODULUS
          \<and> (\<forall>k' < k. MODULUS \<le> draw_candidate src (pos + 32 * k'))))
   \<and> (0 \<le> draw_candidate src pos \<and> draw_candidate src pos < 2 ^ 254)
   \<and> ((\<exists>k. draw_candidate src (pos + 32 * k) < MODULUS) \<longrightarrow> generateFieldElement src pos \<noteq> None)"
proof (intro conjI impI)
  assume "generateFieldElement src pos = Some (s, pos')"
  then obtain x where loop: "generateFieldElement_loop src pos = Some (x, pos')"
    and s: "s = bigint_toString x"
    by (auto simp: generateFieldElement_def)
  from loop_sound [OF loop] obtain k where
    k: "pos' = pos + 32 * (k + 1)" "x = draw_candidate src (pos + 32 * k)" "x < MODULUS"
       "\<forall>k' < k. MODULUS \<le> draw_candidate src (pos + 32 * k')"
    by blast
  have nonneg: "0 \<le> x" using candidate_bounds [of src "pos + 32 * k"] k(2) by simp
  have dv: "decimal_value s = x" unfolding s using nonneg by (rule decimal_value_bigint_toString)
  have "pos' = pos + 32 * (k + 1)
          \<and> s = bigint_toString (draw_candidate src (pos + 32 * k))
          \<and> decimal_value s = draw_candidate src (pos + 32 * k)
          \<and> 0 \<le> decimal_value s \<and> decimal_value s < MODULUS
          \<and> (\<forall>k' < k. MODULUS \<le> draw_candidate src (pos + 32 * k'))"
    using k s dv nonneg by simp
  then show "\<exists>k. pos' = pos + 32 * (k + 1)
          \<and> s = bigint_toString (draw_candidate src (pos + 32 * k))
          \<and> decimal_value s = draw_candidate src (pos + 32 * k)
          \<and> 0 \<le> decimal_value s \<and> decimal_value s < MODULUS
          \<and> (\<forall>k' < k. MODULUS \<le> draw_candidate src (pos + 32 * k'))"
    by (rule exI)
next
  show "0 \<le> draw_candidate src pos" using candidate_bounds by blast
  show "draw_candidate src pos < 2 ^ 254" using candidate_bounds by blast
next
  assume "\<exists>k. draw_candidate src (pos + 32 * k) < MODULUS"
  then obtain k where "draw_candidate src (pos + 32 * k) < MODULUS" ..
  then have "generateFieldElement_loop src pos \<noteq> None" by (rule loop_returns)
  then show "generateFieldElement src pos \<noteq> None" by (simp add: generateFieldElement_def)
qed

lemma candidate_example_entropy:
  "draw_candidate example_entropy 0 = 2 ^ 254 - 1" "draw_candidate example_entropy 32 = 7"
  by (simp_all add: draw_candidate_def getRandomValues_def example_entropy_def upt_rec shift_or_byte)

theorem generateFieldElement_below_modulus_witness:
  "generateFieldElement example_entropy 0 = Some (''7'', 64)
   \<and> MODULUS \<le> draw_candidate example_entropy 0
   \<and> draw_candidate example_entropy 0 < 2 ^ 254
   \<and> decimal_value ''7'' = draw_candidate example_entropy 32
   \<and> 0 \<le> decimal_value ''7'' \<and> decimal_value ''7'' < MODULUS"
proof -
  have seven: "bigint_toString 7 = ''7''"
    by (simp add: bigint_toString_def toString_def toStringRadix.simps digit_char_def)
  have second: "generateFieldElement_loop example_entropy 32 = Some (7, 64)"
    by (subst generateFieldElement_loop.simps)
       (simp add: candidate_example_entropy MODULUS_def)
  have first: "generateFieldElement_loop example_entropy 0 = Some (7, 64)"
    by (subst generateFieldElement_loop.simps)
       (simp add: candidate_example_entropy MODULUS_def second)
  have run: "generateFieldElement example_entropy 0 = Some (''7'', 64)"
    by (simp add: generateFieldElement_def first seven)
  have rejected: "MODULUS \<le> draw_candidate example_entropy 0"
    by (simp add: candidate_example_entropy MODULUS_def)
  from generateFieldElement_below_modulus [of example_entropy 0 "''7''" 64] run
  obtain k where k: "(64::nat) = 0 + 32 * (k + 1)"
      "decimal_value ''7'' = draw_candidate example_entropy (0 + 32 * k)"
      "0 \<le> decimal_value ''7''" "decimal_value ''7'' < MODULUS"
    by blast
  from k(1) have "k = 1" by simp
  with k have "decimal_value ''7'' = draw_candidate example_entropy 32" by simp
  with run rejected k(3,4) generateFieldElement_below_modulus [of example_entropy 0 "''7''" 64]
  show ?thesis by simp
qed

section \<open>The hex encoding and its decoding\<close>

lemma hex_digit_facts_all:
  "\<forall>d \<in> {0..<16}. hex_value (digit_char d) = d \<and> is_hex_digit (digit_char d)
      \<and> is_lower_hex_digit (digit_char d) \<and> \<not> is_space (digit_char d)
      \<and> digit_char d \<noteq> CHR ''x''"
  by code_simp

lemma hex_digit_facts:
  assumes "d < 16"
  shows "hex_value (digit_char d) = d" "is_hex_digit (digit_char d)"
    "is_lower_hex_digit (digit_char d)" "\<not> is_space (digit_char d)"
    "digit_char d \<noteq> CHR ''x''"
  using hex_digit_facts_all assms by simp_all

lemma byte_hex_digits:
  "byte_hex b = [digit_char (unat b div 16), digit_char (unat b mod 16)]"
proof -
  have lt: "unat b < 256" using unsigned_less [of b, where 'a = nat] by simp
  show ?thesis
  proof (cases "unat b < 16")
    case True
    then have "toStringRadix 16 (unat b) = [digit_char (unat b)]"
      by (subst toStringRadix.simps) simp
    moreover have "digit_char 0 = CHR ''0''" by (simp add: digit_char_def)
    ultimately show ?thesis using True by (simp add: byte_hex_def padStart_def)
  next
    case False
    have hi: "unat b div 16 < 16" using lt by simp
    have "toStringRadix 16 (unat b)
            = toStringRadix 16 (unat b div 16) @ [digit_char (unat b mod 16)]"
      using False by (subst toStringRadix.simps) simp
    moreover have "toStringRadix 16 (unat b div 16) = [digit_char (unat b div 16)]"
      using hi by (subst toStringRadix.simps) simp
    ultimately show ?thesis by (simp add: byte_hex_def padStart_def)
  qed
qed

lemma byte_hex_digit_bounds: "unat (b::byte) div 16 < 16" "unat b mod 16 < 16"
  using unsigned_less [of b, where 'a = nat] by simp_all

lemma parseInt16_byte_hex: "word_of_nat (parseInt16 (byte_hex b)) = b"
proof -
  have "parseInt16 (byte_hex b) = 16 * (unat b div 16) + unat b mod 16"
    by (simp add: byte_hex_digits parseInt16_def hex_digit_facts(1) byte_hex_digit_bounds)
  then show ?thesis by simp
qed

lemma chunks2_hex_of_bytes: "chunks2 (hex_of_bytes bs) = map byte_hex bs"
  by (induction bs) (simp_all add: hex_of_bytes_def byte_hex_digits)

lemma decode_hex_of_bytes:
  "map (\<lambda>byte. word_of_nat (parseInt16 byte)) (chunks2 (hex_of_bytes bs)) = bs"
  by (simp add: chunks2_hex_of_bytes comp_def parseInt16_byte_hex map_idI)

lemma hex_of_bytes_inj: "hex_of_bytes xs = hex_of_bytes ys \<Longrightarrow> xs = ys"
  by (metis decode_hex_of_bytes)

lemma length_hex_of_bytes: "length (hex_of_bytes bs) = 2 * length bs"
  by (induction bs) (simp_all add: hex_of_bytes_def byte_hex_digits)















section \<open>The proof fingerprint\<close>

lemma take_hex_of_bytes: "take (2 * k) (hex_of_bytes bs) = hex_of_bytes (take k bs)"
proof (induction bs arbitrary: k)
  case Nil
  then show ?case by (simp add: hex_of_bytes_def)
next
  case (Cons b bs)
  show ?case
  proof (cases k)
    case 0
    then show ?thesis by (simp add: hex_of_bytes_def)
  next
    case (Suc m)
    then show ?thesis using Cons [of m] by (simp add: hex_of_bytes_def byte_hex_digits)
  qed
qed

lemma drop_hex_of_bytes: "drop (2 * k) (hex_of_bytes bs) = hex_of_bytes (drop k bs)"
proof (induction bs arbitrary: k)
  case Nil
  then show ?case by (simp add: hex_of_bytes_def)
next
  case (Cons b bs)
  show ?case
  proof (cases k)
    case 0
    then show ?thesis by (simp add: hex_of_bytes_def)
  next
    case (Suc m)
    then show ?thesis using Cons [of m] by (simp add: hex_of_bytes_def byte_hex_digits)
  qed
qed

lemma slice_last_hex_of_bytes:
  "slice_last (2 * k) (hex_of_bytes bs) = hex_of_bytes (drop (length bs - k) bs)"
proof -
  have "length (hex_of_bytes bs) - 2 * k = 2 * (length bs - k)"
    by (simp add: length_hex_of_bytes)
  then show ?thesis by (simp add: slice_last_def drop_hex_of_bytes)
qed

lemma hashProof_bytes:
  "hashProof prf = hex_of_bytes (take 4 (take 32 prf)) @ ''...''
      @ hex_of_bytes (drop (length (take 32 prf) - 4) (take 32 prf))"
  using take_hex_of_bytes [of 4 "take 32 prf"] slice_last_hex_of_bytes [of 4 "take 32 prf"]
  by (simp add: hashProof_def Let_def)

lemma PseudokuGame_hashProof_bytes:
  "PseudokuGame_hashProof prf = ''0x'' @ hex_of_bytes (take 3 (take 32 prf)) @ ''...''
      @ hex_of_bytes (drop (length (take 32 prf) - 3) (take 32 prf))"
  using take_hex_of_bytes [of 3 "take 32 prf"] slice_last_hex_of_bytes [of 3 "take 32 prf"]
  by (simp add: PseudokuGame_hashProof_def Let_def)

lemma hashProof_long:
  assumes "32 \<le> length prf"
  shows "hashProof prf = hex_of_bytes (take 4 prf) @ ''...'' @ hex_of_bytes (take 4 (drop 28 prf))"
    and "PseudokuGame_hashProof prf
           = ''0x'' @ hex_of_bytes (take 3 prf) @ ''...'' @ hex_of_bytes (take 3 (drop 29 prf))"
proof -
  have len: "length (take 32 prf) = 32" using assms by simp
  have d4: "drop 28 (take 32 prf) = take 4 (drop 28 prf)" by (simp add: drop_take)
  have d3: "drop 29 (take 32 prf) = take 3 (drop 29 prf)" by (simp add: drop_take)
  show "hashProof prf = hex_of_bytes (take 4 prf) @ ''...'' @ hex_of_bytes (take 4 (drop 28 prf))"
    unfolding hashProof_bytes len using d4 by simp
  show "PseudokuGame_hashProof prf
           = ''0x'' @ hex_of_bytes (take 3 prf) @ ''...'' @ hex_of_bytes (take 3 (drop 29 prf))"
    unfolding PseudokuGame_hashProof_bytes len using d3 by simp
qed

lemma fingerprint_eq_iff:
  assumes "length a = n" "length a' = n" "length b = n" "length b' = n"
  shows "hex_of_bytes a @ ''...'' @ hex_of_bytes b = hex_of_bytes a' @ ''...'' @ hex_of_bytes b'
           \<longleftrightarrow> a = a' \<and> b = b'"
proof
  assume eq: "hex_of_bytes a @ ''...'' @ hex_of_bytes b = hex_of_bytes a' @ ''...'' @ hex_of_bytes b'"
  have "length (hex_of_bytes a) = length (hex_of_bytes a')"
    using assms by (simp add: length_hex_of_bytes)
  with eq have "hex_of_bytes a = hex_of_bytes a'" "hex_of_bytes b = hex_of_bytes b'"
    by simp_all
  then show "a = a' \<and> b = b'" by (simp add: hex_of_bytes_inj)
qed simp

text \<open>
  Claim C9, as the program has it. Both \<open>hashProof\<close> functions look at the first 32
  bytes of the proof only: proofs that agree on their first 32 bytes display the same
  fingerprint. For proofs of at least 32 bytes the fingerprint of \<open>ProofUtils\<close> is
  determined by, and determines, bytes 0..3 and 28..31, and the fingerprint of the game
  class bytes 0..2 and 29..31.
\<close>

theorem hashProof_first_32_bytes:
  "(take 32 p = take 32 q \<longrightarrow>
       hashProof p = hashProof q \<and> PseudokuGame_hashProof p = PseudokuGame_hashProof q)
   \<and> (32 \<le> length p \<and> 32 \<le> length q \<longrightarrow>
        (hashProof p = hashProof q
           \<longleftrightarrow> take 4 p = take 4 q \<and> take 4 (drop 28 p) = take 4 (drop 28 q))
      \<and> (PseudokuGame_hashProof p = PseudokuGame_hashProof q
           \<longleftrightarrow> take 3 p = take 3 q \<and> take 3 (drop 29 p) = take 3 (drop 29 q)))"
proof (intro conjI impI)
  assume "take 32 p = take 32 q"
  then show "hashProof p = hashProof q" "PseudokuGame_hashProof p = PseudokuGame_hashProof q"
    by (simp_all add: hashProof_def PseudokuGame_hashProof_def)
next
  assume len: "32 \<le> length p \<and> 32 \<le> length q"
  then have l4: "length (take 4 p) = 4" "length (take 4 q) = 4"
      "length (take 4 (drop 28 p)) = 4" "length (take 4 (drop 28 q)) = 4"
    and l3: "length (take 3 p) = 3" "length (take 3 q) = 3"
      "length (take 3 (drop 29 p)) = 3" "length (take 3 (drop 29 q)) = 3"
    by auto
  show "hashProof p = hashProof q
           \<longleftrightarrow> take 4 p = take 4 q \<and> take 4 (drop 28 p) = take 4 (drop 28 q)"
    using len fingerprint_eq_iff [OF l4(1) l4(2) l4(3) l4(4)]
    by (simp add: hashProof_long(1))
  show "PseudokuGame_hashProof p = PseudokuGame_hashProof q
           \<longleftrightarrow> take 3 p = take 3 q \<and> take 3 (drop 29 p) = take 3 (drop 29 q)"
    using len fingerprint_eq_iff [OF l3(1) l3(2) l3(3) l3(4)]
    by (simp add: hashProof_long(2))
qed

theorem hashProof_first_32_bytes_witness:
  "take 32 (replicate 32 (7::byte) @ [1]) = take 32 (replicate 32 7 @ [2])
   \<and> hashProof (replicate 32 7 @ [1]) = hashProof (replicate 32 7 @ [2])
   \<and> 32 \<le> length (replicate 32 (7::byte) @ [1]) \<and> 32 \<le> length (5 # replicate 32 (7::byte))
   \<and> hashProof (replicate 32 7 @ [1]) \<noteq> hashProof (5 # replicate 32 7)
   \<and> PseudokuGame_hashProof (replicate 32 7 @ [1]) \<noteq> PseudokuGame_hashProof (5 # replicate 32 7)"
proof -
  have pre: "take 32 (replicate 32 (7::byte) @ [1]) = take 32 (replicate 32 7 @ [2])" by simp
  have len: "32 \<le> length (replicate 32 (7::byte) @ [1]) \<and> 32 \<le> length (5 # replicate 32 (7::byte))"
    by simp
  have diff4: "take 4 (replicate 32 (7::byte) @ [1]) \<noteq> take 4 (5 # replicate 32 7)"
    by (simp add: numeral_eq_Suc)
  have diff3: "take 3 (replicate 32 (7::byte) @ [1]) \<noteq> take 3 (5 # replicate 32 7)"
    by (simp add: numeral_eq_Suc)
  note a = hashProof_first_32_bytes [of "replicate 32 7 @ [1]" "replicate 32 7 @ [2]"]
  note b = hashProof_first_32_bytes [of "replicate 32 7 @ [1]" "5 # replicate 32 7"]
  from a pre have same: "hashProof (replicate 32 7 @ [1]) = hashProof (replicate 32 7 @ [2])"
    by blast
  from b len diff4 have d1: "hashProof (replicate 32 7 @ [1]) \<noteq> hashProof (5 # replicate 32 7)"
    by blast
  from b len diff3 have d2: "PseudokuGame_hashProof (replicate 32 7 @ [1])
      \<noteq> PseudokuGame_hashProof (5 # replicate 32 7)"
    by blast
  from pre same len d1 d2 show ?thesis by blast
qed

text \<open>Claim C9 as stated fails: two proofs of 33 bytes that differ only in their last
  byte display the same fingerprint, in both variants.\<close>

theorem hashProof_final_bytes_counterexample:
  "replicate 32 (7::byte) @ [1] \<noteq> replicate 32 7 @ [2]
   \<and> butlast (replicate 32 (7::byte) @ [1]) = butlast (replicate 32 7 @ [2])
   \<and> hashProof (replicate 32 7 @ [1]) = hashProof (replicate 32 7 @ [2])
   \<and> PseudokuGame_hashProof (replicate 32 7 @ [1]) = PseudokuGame_hashProof (replicate 32 7 @ [2])"
  by (simp add: hashProof_def PseudokuGame_hashProof_def)

section \<open>The OAuth callback\<close>

text \<open>
  Claim C4. When the \<open>state\<close> passed to \<open>handleCallback\<close> differs from the persisted
  \<open>oauth_state\<close> (or none is persisted), the call throws the error
  \<open>Invalid OAuth state\<close> and leaves the browser as it was: no request has been issued
  to the token exchange endpoint.
\<close>

theorem handleCallback_state_mismatch:
  assumes "sessionStorage b ''oauth_state'' \<noteq> Some state"
  shows "handleCallback fetch code state b = (Inl (Error ''Invalid OAuth state''), b)
       \<and> requests (snd (handleCallback fetch code state b)) = requests b"
  using assms by (auto simp: handleCallback_def)

theorem handleCallback_state_mismatch_witness:
  "sessionStorage example_browser ''oauth_state'' \<noteq> Some ''forged''
   \<and> handleCallback (\<lambda>req. Response True (Json (Some ''token''))) ''code'' ''forged'' example_browser
        = (Inl (Error ''Invalid OAuth state''), example_browser)
   \<and> requests (snd (handleCallback (\<lambda>req. Response True (Json (Some ''token'')))
        ''code'' ''forged'' example_browser)) = []"
proof -
  have ne: "sessionStorage example_browser ''oauth_state'' \<noteq> Some ''forged''"
    by (simp add: example_browser_def)
  have r: "requests example_browser = []" by (simp add: example_browser_def)
  from handleCallback_state_mismatch [OF ne,
      of "\<lambda>req. Response True (Json (Some ''token''))" "''code''"] ne r
  show ?thesis by simp
qed

text \<open>On the matching path the stored state is removed before anything else happens.\<close>

lemma handleCallback_match_erases:
  assumes "sessionStorage b ''oauth_state'' = Some state"
  shows "sessionStorage (snd (handleCallback fetch code state b)) ''oauth_state'' = None"
  using assms
  by (auto simp: handleCallback_def Let_def split: option.splits fetch_outcome.splits response_body.splits)

text \<open>
  Claim C5 asks that the persisted \<open>oauth_state\<close> be erased after the comparison whatever
  its outcome. On a mismatch the function throws before it reaches
  \<open>removeItem\<close>: with \<open>abc123\<close> stored and the state \<open>forged\<close> supplied, the stored
  value is still there after the call.
\<close>

theorem handleCallback_mismatch_keeps_oauth_state:
  "sessionStorage example_browser ''oauth_state'' = Some ''abc123''
   \<and> fst (handleCallback (\<lambda>req. Rejected) ''code'' ''forged'' example_browser)
        = Inl (Error ''Invalid OAuth state'')
   \<and> sessionStorage (snd (handleCallback (\<lambda>req. Rejected) ''code'' ''forged'' example_browser))
        ''oauth_state'' = Some ''abc123''"
  by (simp add: handleCallback_def example_browser_def)

section \<open>The proof button and generateProof\<close>

text \<open>The program keeps \<open>generateProof\<close> away from an unchecked grid through the
  \<open>disabled\<close> flag of the proof button: \<open>reset\<close> sets it, a failed \<open>checkSolution\<close>
  leaves it as it is and a successful one clears it, and a click on a disabled button
  does nothing. \<open>handleCellInput\<close> leaves the flag as it is.\<close>

lemma reset_disables_button: "generateProofBtn_disabled (reset True fresh s)"
  by (simp add: reset_def showStatus_def initializeGame_def stopTimer_def)

lemma checkSolution_button:
  assumes "checkSolution s = Inr (ok, s')"
  shows "generateProofBtn_disabled s' = (if ok then False else generateProofBtn_disabled s)"
    and "prover_calls s' = prover_calls s" and "grid s' = grid s"
  using assms
  by (auto simp: checkSolution_def showStatus_def stopTimer_def
           split: sum.splits bool.splits option.splits if_splits)

lemma click_disabled_button:
  "generateProofBtn_disabled s \<Longrightarrow> click_generateProofBtn P s = s"
  by (simp add: click_generateProofBtn_def)

lemma handleCellInput_leaves_button:
  "generateProofBtn_disabled (handleCellInput row col v s) = generateProofBtn_disabled s"
  by (simp add: handleCellInput_def)

lemma generateProof_uninitialised:
  "\<not> (noir s \<and> backend s) \<Longrightarrow> prover_calls (generateProof P s) = prover_calls s"
  by (auto simp: generateProof_def showStatus_def)

lemma generateProof_calls_execute:
  assumes "noir s" "backend s" "BigInt (fieldElement s) = Inr v"
  shows "prover_calls (generateProof P s)
           = prover_calls s @ [Execute ((bigint_toString v, grid s),
                                        (bigint_toString v, CHALLENGE_PUZZLES_default))]"
  using assms
  by (simp add: generateProof_def showStatus_def log_call_def suspend_def Let_def)

lemma grid_typed_session: "grid typed_session = solved_grid"
  unfolding typed_session_def by code_simp

lemma checkSolution_typed_session:
  "checkSolution typed_session
     = Inr (True,
            (showStatus ''Solution is correct! You can now generate a proof.'' StSuccess
               (stopTimer typed_session))\<lparr>generateProofBtn_disabled := False\<rparr>)"
proof -
  have "checkSolution_cells solved_grid [0..<9] = Inr False" by code_simp
  moreover have "checkSolution_rows solved_grid [0..<9] = Inr None" by code_simp
  moreover have "checkSolution_columns solved_grid [0..<9] = Inr None" by code_simp
  moreover have "checkSolution_boxes solved_grid [0..<9] = Inr None" by code_simp
  ultimately show ?thesis by (simp add: checkSolution_def grid_typed_session)
qed

lemma checked_session_eq:
  "checked_session
     = (showStatus ''Solution is correct! You can now generate a proof.'' StSuccess
          (stopTimer typed_session))\<lparr>generateProofBtn_disabled := False\<rparr>"
  by (simp add: checked_session_def click_checkBtn_def checkSolution_typed_session)

lemma grid_edited_session: "grid edited_session = set_cell solved_grid 0 2 0"
proof -
  have g: "grid checked_session = solved_grid"
    by (simp add: checked_session_eq showStatus_def stopTimer_def grid_typed_session)
  have "length solved_grid = 9" "length (solved_grid ! 0) = 9"
    by (simp_all add: solved_grid_def)
  then show ?thesis
    by (simp add: edited_session_def handleCellInput_def g)
qed

text \<open>
  Claim C6 asks that \<open>generateProof\<close>, invoked while \<open>checkSolution\<close> has not most
  recently succeeded on the grid, be rejected without any call of the prover. On the
  page: after a reset the solution is typed in and checked, which enables the proof
  button; the cell \<open>(0,2)\<close> is then cleared, so that \<open>checkSolution\<close> no longer accepts
  the grid, but the button is still enabled; the click on it runs \<open>generateProof\<close>,
  which calls \<open>noir.execute\<close> on the grid with the empty cell.
\<close>

theorem generateProof_after_edit_invokes_prover:
  "generateProofBtn_disabled editing_session
   \<and> grid typed_session = solved_grid
   \<and> checkSolution typed_session = Inr (True, checked_session)
   \<and> \<not> generateProofBtn_disabled checked_session
   \<and> grid edited_session = set_cell solved_grid 0 2 0
   \<and> \<not> generateProofBtn_disabled edited_session
   \<and> checkSolution edited_session
        = Inr (False, showStatus ''Please fill in all cells'' StError edited_session)
   \<and> prover_calls edited_session = []
   \<and> prover_calls (click_generateProofBtn example_prover edited_session)
        = [Execute ((''7'', set_cell solved_grid 0 2 0), (''7'', CHALLENGE_PUZZLES_default))]"
proof -
  have start: "generateProofBtn_disabled editing_session" by (simp add: editing_session_def)
  have check1: "checkSolution typed_session = Inr (True, checked_session)"
    by (simp add: checkSolution_typed_session checked_session_eq)
  have en1: "\<not> generateProofBtn_disabled checked_session"
    by (simp add: checked_session_eq)
  have en2: "\<not> generateProofBtn_disabled edited_session"
    by (simp add: edited_session_def handleCellInput_leaves_button en1)
  have empty: "checkSolution_cells (set_cell solved_grid 0 2 0) [0..<9] = Inr True"
    by code_simp
  have check2: "checkSolution edited_session
        = Inr (False, showStatus ''Please fill in all cells'' StError edited_session)"
    by (simp add: checkSolution_def grid_edited_session empty)
  have calls_typed: "prover_calls typed_session = []"
    unfolding typed_session_def by code_simp
  have calls: "prover_calls edited_session = []"
    by (simp add: edited_session_def handleCellInput_def checked_session_eq showStatus_def
          stopTimer_def calls_typed)
  have fe_typed: "fieldElement typed_session = ''7'' \<and> noir typed_session \<and> backend typed_session"
    unfolding typed_session_def by code_simp
  have env: "fieldElement edited_session = ''7''" "noir edited_session" "backend edited_session"
    using fe_typed
    by (simp_all add: edited_session_def handleCellInput_def checked_session_eq showStatus_def
          stopTimer_def)
  have big: "BigInt ''7'' = Inr 7" by code_simp
  have seven: "bigint_toString 7 = ''7''"
    by (simp add: bigint_toString_def toString_def toStringRadix.simps digit_char_def)
  have click: "prover_calls (click_generateProofBtn example_prover edited_session)
        = [Execute ((''7'', set_cell solved_grid 0 2 0), (''7'', CHALLENGE_PUZZLES_default))]"
    using en2 generateProof_calls_execute [OF env(2,3), of 7 example_prover]
    by (simp add: click_generateProofBtn_def env(1) big seven calls grid_edited_session)
  from start grid_typed_session check1 en1 grid_edited_session en2 check2 calls click
  show ?thesis by simp
qed

end
